theory Spec2Isabelle
  imports Complex_Main
begin

section \<open>Arrays, exceptions and the module constants of \<^verbatim>\<open>train.py\<close>\<close>

text \<open>
  The script \<^verbatim>\<open>src/train/train.py\<close> works on numpy arrays and TensorFlow tensors of
  floating-point numbers. The embedding idealises every float as a real number: a rank-1
  array is a list of reals, a rank-2 array a list of rows. Exceptions that the script can
  raise are values of the type \<open>error\<close>.
\<close>

type_synonym vec = "real list"
type_synonym mat = "real list list"

datatype error = ZeroDivisionError | InvalidArgumentError | ValueError | IndexError

text \<open>\<^verbatim>\<open>LATENT_DIM = 2\<close>, \<^verbatim>\<open>epochs = 10000\<close>, \<^verbatim>\<open>display_interval = 1000\<close>.\<close>

definition LATENT_DIM :: nat where
  "LATENT_DIM = 2"

definition epochs :: int where
  "epochs = 10000"

definition display_interval :: int where
  "display_interval = 1000"

section \<open>The decoder: \<^verbatim>\<open>create_decoder\<close>\<close>

datatype activation = relu | sigmoid

fun activate :: "activation \<Rightarrow> real \<Rightarrow> real" where
  "activate relu x = max 0 x"
| "activate sigmoid x = 1 / (1 + exp (- x))"

text \<open>
  A \<^verbatim>\<open>layers.Dense(units, activation=...)\<close> layer once built: its configuration and its two
  trainable variables, a kernel of shape (input width, units) and a bias of shape (units).
\<close>

record Dense =
  units :: nat
  activation :: activation
  kernel :: mat
  bias :: vec

type_synonym Sequential = "Dense list"

text \<open>
  The layer computes \<^verbatim>\<open>activation(dot(inputs, kernel) + bias)\<close>. For one input row \<open>x\<close>,
  \<^verbatim>\<open>dot\<close> adds up the kernel rows scaled by the entries of \<open>x\<close>.
\<close>

definition dot :: "vec \<Rightarrow> mat \<Rightarrow> nat \<Rightarrow> vec" where
  "dot x W n = foldl (\<lambda>acc (xi, row). map2 (+) acc (map ((*) xi) row)) (replicate n 0) (zip x W)"

definition dense_call :: "Dense \<Rightarrow> vec \<Rightarrow> vec" where
  "dense_call l x = map (activate (activation l)) (map2 (+) (dot x (kernel l) (units l)) (bias l))"

text \<open>Calling a \<^verbatim>\<open>keras.Sequential\<close> on a batch runs every row through the layers in order.\<close>

definition call_model :: "Sequential \<Rightarrow> mat \<Rightarrow> mat" where
  "call_model model batch = map (\<lambda>x. foldl (\<lambda>h l. dense_call l h) x model) batch"

definition predict :: "Sequential \<Rightarrow> mat \<Rightarrow> mat" where
  "predict model batch = call_model model batch"

text \<open>
  Keras draws a fresh kernel from its Glorot-uniform initialiser and sets the bias to zero.
  The random draw is a parameter: \<open>init i j\<close> is the value drawn for kernel entry \<open>(i, j)\<close>.
\<close>

definition Dense_layer :: "(nat \<Rightarrow> nat \<Rightarrow> real) \<Rightarrow> nat \<Rightarrow> nat \<Rightarrow> activation \<Rightarrow> Dense" where
  "Dense_layer init n_in n_units act =
     \<lparr>units = n_units, activation = act,
      kernel = map (\<lambda>i. map (\<lambda>j. init i j) [0..<n_units]) [0..<n_in],
      bias = replicate n_units 0\<rparr>"

definition create_decoder :: "(nat \<Rightarrow> nat \<Rightarrow> nat \<Rightarrow> real) \<Rightarrow> Sequential" where
  "create_decoder init =
     [Dense_layer (init 0) LATENT_DIM 128 relu,
      Dense_layer (init 1) 128 256 relu,
      Dense_layer (init 2) 256 512 relu,
      Dense_layer (init 3) 512 (28 * 28) sigmoid]"

text \<open>
  The shape invariant of a built model: every kernel has one row per input and one column
  per unit, every bias one entry per unit, and each layer feeds the next.
\<close>

fun built :: "nat \<Rightarrow> Sequential \<Rightarrow> bool" where
  "built n [] = True"
| "built n (l # ls) =
     (length (kernel l) = n \<and> list_all (\<lambda>row. length row = units l) (kernel l) \<and>
      length (bias l) = units l \<and> built (units l) ls)"

definition get_config :: "Sequential \<Rightarrow> (nat \<times> activation) list" where
  "get_config model = map (\<lambda>l. (units l, activation l)) model"

text \<open>A model with the architecture of \<^verbatim>\<open>create_decoder\<close>, whatever its weights.\<close>

definition is_decoder :: "Sequential \<Rightarrow> bool" where
  "is_decoder model =
     (get_config model = [(128, relu), (256, relu), (512, relu), (28 * 28, sigmoid)] \<and>
      built LATENT_DIM model)"

text \<open>
  \<^verbatim>\<open>get_weights\<close> lists the arrays of the layers in order and \<^verbatim>\<open>set_weights\<close> stores a
  list of arrays, raising \<^verbatim>\<open>ValueError\<close> when the count or a shape does not fit. The two
  arrays of a layer are kept as a pair here.
\<close>

type_synonym weights = "(mat \<times> vec) list"

definition get_weights :: "Sequential \<Rightarrow> weights" where
  "get_weights model = map (\<lambda>l. (kernel l, bias l)) model"

fun set_weights :: "Sequential \<Rightarrow> weights \<Rightarrow> error + Sequential" where
  "set_weights [] [] = Inr []"
| "set_weights (l # ls) ((k, b) # ws) =
     (if map length k = map length (kernel l) \<and> length b = length (bias l)
      then (case set_weights ls ws of
              Inl e \<Rightarrow> Inl e
            | Inr ls' \<Rightarrow> Inr (l\<lparr>kernel := k, bias := b\<rparr> # ls'))
      else Inl ValueError)"
| "set_weights _ _ = Inl ValueError"

text \<open>
  The export block: \<^verbatim>\<open>export_model = create_decoder()\<close>, then
  \<^verbatim>\<open>export_model.set_weights(decoder.get_weights())\<close>. Compiling the model does not touch
  its weights.
\<close>

definition export_model :: "(nat \<Rightarrow> nat \<Rightarrow> nat \<Rightarrow> real) \<Rightarrow> Sequential \<Rightarrow> error + Sequential" where
  "export_model init decoder = set_weights (create_decoder init) (get_weights decoder)"

section \<open>The loss: \<^verbatim>\<open>keras.losses.MeanSquaredError\<close>\<close>

text \<open>
  The loss object averages the squared differences over the last axis and then over the
  batch. The script calls it on one target row and one reconstructed row, and the
  definitions are that computation for rows of equal, non-zero length. (On an empty axis
  TensorFlow yields NaN, and rows of unequal length it broadcasts or rejects; the
  properties of the loss below are stated for rows of equal, non-zero length.)
\<close>

definition mean :: "vec \<Rightarrow> real" where
  "mean xs = sum_list xs / real (length xs)"

definition loss_fn :: "mat \<Rightarrow> mat \<Rightarrow> real" where
  "loss_fn y_true y_pred =
     mean (map2 (\<lambda>t p. mean (map2 (\<lambda>a b. (b - a)\<^sup>2) t p)) y_true y_pred)"

section \<open>The optimizer: \<^verbatim>\<open>keras.optimizers.Adam(learning_rate=0.001)\<close>\<close>

text \<open>
  Adam keeps a step counter and, for every trainable variable, a first-moment slot \<open>m\<close> and
  a second-moment slot \<open>v\<close> of the variable's shape, zero at first. The trainable variables
  here are the latent table and the kernel and bias of every decoder layer.
\<close>

record Adam =
  iterations :: nat
  m_latent :: mat
  v_latent :: mat
  m_decoder :: weights
  v_decoder :: weights

definition learning_rate :: real where
  "learning_rate = 1 / 1000"

definition beta_1 :: real where
  "beta_1 = 9 / 10"

definition beta_2 :: real where
  "beta_2 = 999 / 1000"

definition epsilon :: real where
  "epsilon = 1 / 10 ^ 7"

text \<open>The bias-corrected step size of step \<open>t\<close> (the counter plus one).\<close>

definition adam_lr :: "nat \<Rightarrow> real" where
  "adam_lr t = learning_rate * sqrt (1 - beta_2 ^ t) / (1 - beta_1 ^ t)"

text \<open>Dense update of the slots: \<open>m := beta_1 m + (1 - beta_1) g\<close>, \<open>v := beta_2 v + (1 - beta_2) g\<^sup>2\<close>.\<close>

definition moment1 :: "vec \<Rightarrow> vec \<Rightarrow> vec" where
  "moment1 m g = map2 (\<lambda>mi gi. beta_1 * mi + (1 - beta_1) * gi) m g"

definition moment2 :: "vec \<Rightarrow> vec \<Rightarrow> vec" where
  "moment2 v g = map2 (\<lambda>vi gi. beta_2 * vi + (1 - beta_2) * gi\<^sup>2) v g"

text \<open>The variable update \<open>var := var - lr * m / (sqrt v + epsilon)\<close>, over a whole array.\<close>

definition assign_sub_vec :: "real \<Rightarrow> vec \<Rightarrow> vec \<Rightarrow> vec \<Rightarrow> vec" where
  "assign_sub_vec lr var m v =
     map2 (\<lambda>x (mi, vi). x - lr * mi / (sqrt vi + epsilon)) var (zip m v)"

definition assign_sub_mat :: "real \<Rightarrow> mat \<Rightarrow> mat \<Rightarrow> mat \<Rightarrow> mat" where
  "assign_sub_mat lr var m v =
     map2 (\<lambda>row (mrow, vrow). assign_sub_vec lr row mrow vrow) var (zip m v)"

text \<open>
  \<^verbatim>\<open>scatter_add(slot, indices, values)\<close> adds the \<open>k\<close>-th row of \<open>values\<close> to row
  \<open>indices[k]\<close> of the slot.
\<close>

definition scatter_add :: "mat \<Rightarrow> nat list \<Rightarrow> mat \<Rightarrow> mat" where
  "scatter_add slot indices vals =
     foldl (\<lambda>M (i, r). M[i := map2 (+) (M ! i) r]) slot (zip indices vals)"

text \<open>
  The gradient of the latent table comes through \<^verbatim>\<open>tf.gather\<close> as indexed slices: the
  gathered indices and one gradient row for each. Adam's update for such a gradient decays
  both slots of the whole table, adds the gradient rows at the indices, and then updates
  the whole table from the slots (the library documents that its sparse update is the
  dense one: momentum is applied to slices that were not used in the forward pass).
\<close>

definition adam_sparse :: "real \<Rightarrow> mat \<times> mat \<times> mat \<Rightarrow> nat list \<Rightarrow> mat \<Rightarrow> mat \<times> mat \<times> mat" where
  "adam_sparse lr state indices g =
     (case state of (var, m, v) \<Rightarrow>
       let m' = scatter_add (map (map ((*) beta_1)) m) indices (map (map ((*) (1 - beta_1))) g);
           v' = scatter_add (map (map ((*) beta_2)) v) indices
                  (map (map (\<lambda>gi. (1 - beta_2) * gi\<^sup>2)) g)
       in (assign_sub_mat lr var m' v', m', v'))"

text \<open>The dense update of the decoder's variables, layer by layer.\<close>

definition adam_dense :: "real \<Rightarrow> weights \<times> weights \<times> weights \<Rightarrow> weights \<Rightarrow> weights \<times> weights \<times> weights" where
  "adam_dense lr state g =
     (case state of (var, m, v) \<Rightarrow>
       let m' = map2 (\<lambda>(mk, mb) (gk, gb). (map2 moment1 mk gk, moment1 mb gb)) m g;
           v' = map2 (\<lambda>(vk, vb) (gk, gb). (map2 moment2 vk gk, moment2 vb gb)) v g
       in (map2 (\<lambda>(k, b) ((mk, mb), (vk, vb)).
                   (assign_sub_mat lr k mk vk, assign_sub_vec lr b mb vb)) var (zip m' v'),
           m', v'))"

section \<open>The global state of the script\<close>

text \<open>
  The module-level variables that training and sampling read and write: the dataset
  (images \<^verbatim>\<open>x_data\<close>, labels \<^verbatim>\<open>y_data\<close>), the latent table, the decoder, the optimizer, the
  loss history, and the progress lines printed so far (epoch and loss of each).
\<close>

record globals =
  x_data :: "mat list"
  y_data :: "int list"
  latent_codes :: mat
  decoder :: Sequential
  optimizer :: Adam
  loss_history :: "real list"
  progress :: "(int \<times> real) list"

definition NUM_SHAPES :: "globals \<Rightarrow> nat" where
  "NUM_SHAPES s = length (x_data s)"

text \<open>\<^verbatim>\<open>x_data_flat = x_data.reshape((len(x_data), np.prod(x_data.shape[1:])))\<close>\<close>

definition x_data_flat :: "globals \<Rightarrow> mat" where
  "x_data_flat s = map concat (x_data s)"

text \<open>
  The state the script has built when training starts: one latent row of \<^verbatim>\<open>LATENT_DIM\<close>
  random normal draws per sample (\<open>rnd i k\<close> is the draw for entry \<open>(i, k)\<close>), a fresh
  decoder, and an optimizer with zero slots.
\<close>

definition zeros_like :: "mat \<Rightarrow> mat" where
  "zeros_like M = map (map (\<lambda>_. 0)) M"

definition initial_globals ::
  "mat list \<Rightarrow> int list \<Rightarrow> (nat \<Rightarrow> nat \<Rightarrow> real) \<Rightarrow> (nat \<Rightarrow> nat \<Rightarrow> nat \<Rightarrow> real) \<Rightarrow> globals" where
  "initial_globals xs ys rnd init =
     (let latent = map (\<lambda>i. map (rnd i) [0..<LATENT_DIM]) [0..<length xs];
          dec = create_decoder init;
          zero_w = map (\<lambda>(k, b). (zeros_like k, map (\<lambda>_. 0) b)) (get_weights dec)
      in \<lparr>x_data = xs, y_data = ys, latent_codes = latent, decoder = dec,
          optimizer = \<lparr>iterations = 0, m_latent = zeros_like latent, v_latent = zeros_like latent,
                        m_decoder = zero_w, v_decoder = zero_w\<rparr>,
          loss_history = [], progress = []\<rparr>)"

section \<open>One training step: \<^verbatim>\<open>train_step\<close>\<close>

text \<open>
  \<^verbatim>\<open>tf.gather(latent_codes, latent_idx)\<close> picks the rows at the indices; an index outside
  the table raises \<^verbatim>\<open>InvalidArgumentError\<close>.
\<close>

definition gather :: "mat \<Rightarrow> nat list \<Rightarrow> error + mat" where
  "gather params indices =
     (if list_all (\<lambda>i. i < length params) indices then Inr (map ((!) params) indices)
      else Inl InvalidArgumentError)"

text \<open>
  Automatic differentiation is the framework's: \<open>tape model z target\<close> stands for
  \<^verbatim>\<open>tape.gradient\<close> and returns the gradient of the loss with respect to the gathered rows
  \<open>z\<close> and with respect to the decoder's variables.
\<close>

type_synonym tape_gradient = "Sequential \<Rightarrow> mat \<Rightarrow> mat \<Rightarrow> mat \<times> weights"





text \<open>\<^verbatim>\<open>optimizer.apply_gradients(zip(gradients, trainable_vars))\<close>\<close>

definition apply_gradients ::
  "Adam \<Rightarrow> nat list \<times> mat \<Rightarrow> weights \<Rightarrow> mat \<Rightarrow> Sequential \<Rightarrow> Adam \<times> mat \<times> Sequential" where
  "apply_gradients opt g_latent g_decoder latent model =
     (let lr = adam_lr (iterations opt + 1);
          (latent', ml, vl) =
             adam_sparse lr (latent, m_latent opt, v_latent opt) (fst g_latent) (snd g_latent);
          (w', md, vd) =
             adam_dense lr (get_weights model, m_decoder opt, v_decoder opt) g_decoder
      in (\<lparr>iterations = iterations opt + 1, m_latent = ml, v_latent = vl,
            m_decoder = md, v_decoder = vd\<rparr>,
          latent',
          map2 (\<lambda>l (k, b). l\<lparr>kernel := k, bias := b\<rparr>) model w'))"

definition train_step ::
  "tape_gradient \<Rightarrow> globals \<Rightarrow> nat list \<Rightarrow> mat \<Rightarrow> (error \<times> globals) + (globals \<times> real)" where
  "train_step tape s latent_idx target_image =
     (case gather (latent_codes s) latent_idx of
        Inl e \<Rightarrow> Inl (e, s)
      | Inr z \<Rightarrow>
          let reconstructed = call_model (decoder s) z;
              loss = loss_fn target_image reconstructed;
              (g_z, g_decoder) = tape (decoder s) z target_image;
              (opt', latent', decoder') =
                 apply_gradients (optimizer s) (latent_idx, g_z) g_decoder
                   (latent_codes s) (decoder s)
          in Inr (s\<lparr>latent_codes := latent', decoder := decoder', optimizer := opt'\<rparr>, loss))"

section \<open>The main training loop\<close>

text \<open>
  The inner loop \<^verbatim>\<open>for i in range(NUM_SHAPES)\<close>: a step on row \<open>i\<close> against the flattened
  image \<^verbatim>\<open>x_data_flat[i:i+1]\<close>, the loss added to \<^verbatim>\<open>epoch_loss\<close>.
\<close>

fun train_shapes ::
  "tape_gradient \<Rightarrow> globals \<Rightarrow> nat list \<Rightarrow> real \<Rightarrow> (error \<times> globals) + (globals \<times> real)" where
  "train_shapes tape s [] epoch_loss = Inr (s, epoch_loss)"
| "train_shapes tape s (i # rest) epoch_loss =
     (case train_step tape s [i] (take 1 (drop i (x_data_flat s))) of
        Inl e \<Rightarrow> Inl e
      | Inr (s', loss) \<Rightarrow> train_shapes tape s' rest (epoch_loss + loss))"

text \<open>
  One pass of the outer loop body. With no sample \<^verbatim>\<open>epoch_loss\<close> is still the integer 0
  and \<^verbatim>\<open>epoch_loss /= NUM_SHAPES\<close> divides 0 by 0; \<^verbatim>\<open>epoch % display_interval\<close> is evaluated
  before \<^verbatim>\<open>epoch == 1\<close> and raises for an interval of 0.
\<close>

definition train_epoch ::
  "tape_gradient \<Rightarrow> int \<Rightarrow> globals \<Rightarrow> int \<Rightarrow> (error \<times> globals) + globals" where
  "train_epoch tape interval s epoch =
     (case train_shapes tape s [0..<NUM_SHAPES s] 0 of
        Inl e \<Rightarrow> Inl e
      | Inr (s1, loss_sum) \<Rightarrow>
          if NUM_SHAPES s1 = 0 then Inl (ZeroDivisionError, s1)
          else
            let epoch_loss = loss_sum / real (NUM_SHAPES s1);
                s2 = s1\<lparr>loss_history := loss_history s1 @ [epoch_loss]\<rparr>
            in if interval = 0 then Inl (ZeroDivisionError, s2)
               else if epoch mod interval = 0 \<or> epoch = 1
               then Inr (s2\<lparr>progress := progress s2 @ [(epoch, epoch_loss)]\<rparr>)
               else Inr s2)"

fun training_loop ::
  "tape_gradient \<Rightarrow> int \<Rightarrow> globals \<Rightarrow> int list \<Rightarrow> (error \<times> globals) + globals" where
  "training_loop tape interval s [] = Inr s"
| "training_loop tape interval s (epoch # rest) =
     (case train_epoch tape interval s epoch of
        Inl e \<Rightarrow> Inl e
      | Inr s' \<Rightarrow> training_loop tape interval s' rest)"

text \<open>\<^verbatim>\<open>loss_history = []\<close>, then \<^verbatim>\<open>for epoch in range(1, epochs + 1)\<close>.\<close>

definition main_training_loop ::
  "tape_gradient \<Rightarrow> int \<Rightarrow> int \<Rightarrow> globals \<Rightarrow> (error \<times> globals) + globals" where
  "main_training_loop tape n_epochs interval s =
     training_loop tape interval (s\<lparr>loss_history := []\<rparr>) [1..n_epochs]"

section \<open>The latent-space sampler: \<^verbatim>\<open>encoded_points\<close>\<close>

text \<open>
  \<^verbatim>\<open>np.linspace(start, stop, num)\<close>: \<open>num\<close> evenly spaced values, the last one set to
  \<open>stop\<close>.
\<close>

definition linspace :: "real \<Rightarrow> real \<Rightarrow> nat \<Rightarrow> vec" where
  "linspace start stop num =
     (if num = 0 then []
      else if num = 1 then [start]
      else map (\<lambda>k. start + real k * ((stop - start) / real (num - 1))) [0..<num - 1] @ [stop])"

text \<open>\<^verbatim>\<open>.reshape(rows, cols)\<close> raises \<^verbatim>\<open>ValueError\<close> when the sizes do not agree.\<close>

definition reshape :: "nat \<Rightarrow> nat \<Rightarrow> mat \<Rightarrow> error + mat" where
  "reshape rows cols a =
     (if length (concat a) = rows * cols
      then Inr (map (\<lambda>r. take cols (drop (r * cols) (concat a))) [0..<rows])
      else Inl ValueError)"

text \<open>
  \<^verbatim>\<open>img - shape_img\<close> pairs the entries of two arrays by numpy's broadcasting rule, one
  axis at a time: two axes fit when they are equally long or one of them has length 1
  (its one entry is then repeated), and the subtraction raises \<^verbatim>\<open>ValueError\<close> when an
  axis does not fit.
\<close>

definition broadcast :: "'a list \<Rightarrow> 'a list \<Rightarrow> error + ('a \<times> 'a) list" where
  "broadcast a b =
     (if length a = length b then Inr (zip a b)
      else if length a = 1 then Inr (map (Pair (hd a)) b)
      else if length b = 1 then Inr (map (\<lambda>x. (x, hd b)) a)
      else Inl ValueError)"

text \<open>The results of a list of computations, or the first error among them.\<close>

fun collect :: "(error + 'a) list \<Rightarrow> error + 'a list" where
  "collect [] = Inr []"
| "collect (r # rs) =
     (case r of
        Inl e \<Rightarrow> Inl e
      | Inr v \<Rightarrow> (case collect rs of Inl e \<Rightarrow> Inl e | Inr vs \<Rightarrow> Inr (v # vs)))"

text \<open>
  \<^verbatim>\<open>np.sum((img - shape_img)**2)\<close>, over all pixels. (\<open>img\<close> is always the 28 x 28 array
  that \<^verbatim>\<open>reshape\<close> returned; \<open>shape_img\<close> is whatever the dataset holds.)
\<close>

definition l2_dist :: "mat \<Rightarrow> mat \<Rightarrow> error + real" where
  "l2_dist img shape_img =
     (case broadcast img shape_img of
        Inl e \<Rightarrow> Inl e
      | Inr rows \<Rightarrow>
          (case collect (map (\<lambda>(r, r'). broadcast r r') rows) of
             Inl e \<Rightarrow> Inl e
           | Inr cells \<Rightarrow> Inr (sum_list (map (\<lambda>(a, b). (a - b)\<^sup>2) (concat cells)))))"

text \<open>
  The loop \<^verbatim>\<open>for i in range(NUM_SHAPES)\<close> that looks for the closest shape. \<open>min_dist\<close> is
  \<open>None\<close> while it is still \<^verbatim>\<open>float('inf')\<close>, and \<open>below x min_dist\<close> is the test
  \<^verbatim>\<open>x < min_dist\<close>. The distance is computed first (and may raise); the label
  \<^verbatim>\<open>y_data[i]\<close> is read only when the distance improves, and reading past the labels
  raises \<^verbatim>\<open>IndexError\<close>.
\<close>

definition below :: "real \<Rightarrow> real option \<Rightarrow> bool" where
  "below x min_dist = (case min_dist of None \<Rightarrow> True | Some d \<Rightarrow> x < d)"

fun closest_loop ::
  "mat \<Rightarrow> mat list \<Rightarrow> int list \<Rightarrow> nat list \<Rightarrow> real option \<Rightarrow> int \<Rightarrow> error + int" where
  "closest_loop img xs ys [] min_dist closest_shape = Inr closest_shape"
| "closest_loop img xs ys (i # rest) min_dist closest_shape =
     (let shape_img = xs ! i in
      case l2_dist img shape_img of
        Inl e \<Rightarrow> Inl e
      | Inr d \<Rightarrow>
          if below d min_dist
          then (if i < length ys then closest_loop img xs ys rest (Some d) (ys ! i)
                else Inl IndexError)
          else closest_loop img xs ys rest min_dist closest_shape)"

text \<open>The body of the two grid loops for the point \<open>(x, y)\<close>: decode, classify, emit.\<close>

definition grid_point :: "globals \<Rightarrow> real \<Rightarrow> real \<Rightarrow> error + (real \<times> real \<times> int)" where
  "grid_point s x y =
     (let point = [x, y] in
      case reshape 28 28 (predict (decoder s) [point]) of
        Inl e \<Rightarrow> Inl e
      | Inr img \<Rightarrow>
          (case closest_loop img (x_data s) (y_data s) [0..<NUM_SHAPES s] None 0 of
             Inl e \<Rightarrow> Inl e
           | Inr closest_shape \<Rightarrow> Inr (x, y, closest_shape)))"

fun y_loop ::
  "globals \<Rightarrow> real \<Rightarrow> vec \<Rightarrow> (real \<times> real \<times> int) list \<Rightarrow> error + (real \<times> real \<times> int) list" where
  "y_loop s x [] encoded = Inr encoded"
| "y_loop s x (y # rest) encoded =
     (case grid_point s x y of
        Inl e \<Rightarrow> Inl e
      | Inr p \<Rightarrow> y_loop s x rest (encoded @ [p]))"

fun x_loop ::
  "globals \<Rightarrow> vec \<Rightarrow> vec \<Rightarrow> (real \<times> real \<times> int) list \<Rightarrow> error + (real \<times> real \<times> int) list" where
  "x_loop s [] y_grid encoded = Inr encoded"
| "x_loop s (x # rest) y_grid encoded =
     (case y_loop s x y_grid encoded of
        Inl e \<Rightarrow> Inl e
      | Inr encoded' \<Rightarrow> x_loop s rest y_grid encoded')"

definition encoded_points ::
  "globals \<Rightarrow> nat \<Rightarrow> real \<Rightarrow> real \<Rightarrow> real \<Rightarrow> real \<Rightarrow> error + (real \<times> real \<times> int) list" where
  "encoded_points s grid_size x_min x_max y_min y_max =
     x_loop s (linspace x_min x_max grid_size) (linspace y_min y_max grid_size) []"

section \<open>Invariants and example states\<close>

text \<open>
  The latent table, and with it the two Adam slots of the table, has exactly one row per
  sample.
\<close>

definition one_row_per_sample :: "globals \<Rightarrow> bool" where
  "one_row_per_sample s =
     (length (latent_codes s) = NUM_SHAPES s \<and>
      length (m_latent (optimizer s)) = NUM_SHAPES s \<and>
      length (v_latent (optimizer s)) = NUM_SHAPES s)"

text \<open>
  The shapes of a list of weights, a tape that returns decoder gradients of the shapes of
  the decoder's weights, and the decoder's Adam slots having those shapes too.
\<close>

definition shapes :: "weights \<Rightarrow> (nat list \<times> nat) list" where
  "shapes w = map (\<lambda>(k, b). (map length k, length b)) w"

definition tape_shaped :: "tape_gradient \<Rightarrow> bool" where
  "tape_shaped tape =
     (\<forall>model z target. shapes (snd (tape model z target)) = shapes (get_weights model))"

definition decoder_slots_ok :: "globals \<Rightarrow> bool" where
  "decoder_slots_ok s =
     (shapes (m_decoder (optimizer s)) = shapes (get_weights (decoder s)) \<and>
      shapes (v_decoder (optimizer s)) = shapes (get_weights (decoder s)))"


text \<open>
  A reference image has 28 rows of 28 pixels, and the distance named by the
  specification, the sum of squared differences between a decoded row of 784 values and
  a reference image, is written out pixel by pixel.
\<close>

definition is_image :: "mat \<Rightarrow> bool" where
  "is_image a = (length a = 28 \<and> list_all (\<lambda>row. length row = 28) a)"

definition sum_squared_differences :: "vec \<Rightarrow> mat \<Rightarrow> real" where
  "sum_squared_differences out shape_img =
     (\<Sum>r\<leftarrow>[0..<28]. \<Sum>c\<leftarrow>[0..<28]. (out ! (r * 28 + c) - shape_img ! r ! c)\<^sup>2)"

text \<open>
  Example values: a blank and a grey 28 x 28 image; datasets of two samples and of no
  sample, with zero initial draws for the latent table and the kernels; a dataset of two
  samples whose latent entries start at 1/2 and whose kernel entries start at 1/100; and
  an arbitrary stand-in for a tape, which reports 1 for every latent entry and 0 for
  every decoder weight.
\<close>

definition blank_image :: mat where
  "blank_image = replicate 28 (replicate 28 0)"

definition grey_image :: mat where
  "grey_image = replicate 28 (replicate 28 (1 / 2))"

definition two_samples :: globals where
  "two_samples = initial_globals [blank_image, blank_image] [0, 1] (\<lambda>i k. 0) (\<lambda>l i j. 0)"

definition two_shades :: globals where
  "two_shades = initial_globals [blank_image, grey_image] [3, 7] (\<lambda>i k. 0) (\<lambda>l i j. 0)"


definition no_samples :: globals where
  "no_samples = initial_globals [] [] (\<lambda>i k. 0) (\<lambda>l i j. 0)"

definition unit_tape :: tape_gradient where
  "unit_tape model z target =
     (map (map (\<lambda>_. 1)) z, map (\<lambda>(k, b). (zeros_like k, map (\<lambda>_. 0) b)) (get_weights model))"

section \<open>Properties of the loss\<close>

lemma mean_nonneg: "(\<And>x. x \<in> set xs \<Longrightarrow> 0 \<le> x) \<Longrightarrow> 0 \<le> mean xs"
  by (simp add: mean_def sum_list_nonneg)

lemma mean_zero: "(\<And>x. x \<in> set xs \<Longrightarrow> x = 0) \<Longrightarrow> mean xs = 0"
proof -
  assume z: "\<And>x. x \<in> set xs \<Longrightarrow> x = 0"
  have "sum_list xs = 0" using z by (induction xs) auto
  then show ?thesis by (simp add: mean_def)
qed

lemma row_mse_nonneg: "0 \<le> mean (map2 (\<lambda>a b. (b - a)\<^sup>2) t p)"
  by (rule mean_nonneg) auto

lemma row_mse_self: "mean (map2 (\<lambda>a b. (b - a)\<^sup>2) t t) = 0"
  by (rule mean_zero) (auto simp: zip_same)

text \<open>
  Claim C6. For two vectors of the same, non-zero length the loss is the sum of the
  squared differences of their entries divided by the length, which is never negative,
  and the loss of such a vector against itself is exactly 0. (The script calls the loss
  on one target row and one reconstructed row of 784 pixels each.)
\<close>

theorem loss_fn_nonneg_and_zero_on_self:
  assumes "length t = length p" and "t \<noteq> []"
  shows "loss_fn [t] [p] = (\<Sum>i\<leftarrow>[0..<length t]. (p ! i - t ! i)\<^sup>2) / real (length t) \<and>
         0 \<le> loss_fn [t] [p] \<and> loss_fn [t] [t] = 0"
proof -
  have "map2 (\<lambda>a b. (b - a)\<^sup>2) t p = map (\<lambda>i. (p ! i - t ! i)\<^sup>2) [0..<length t]"
    using assms(1) by (intro nth_equalityI) simp_all
  then have "loss_fn [t] [p] = (\<Sum>i\<leftarrow>[0..<length t]. (p ! i - t ! i)\<^sup>2) / real (length t)"
    using assms(1) by (simp add: loss_fn_def mean_def)
  moreover have "0 \<le> loss_fn [t] [p]"
    unfolding loss_fn_def by (rule mean_nonneg) (auto simp: row_mse_nonneg)
  moreover have "loss_fn [t] [t] = 0"
    unfolding loss_fn_def by (rule mean_zero) (auto simp: row_mse_self)
  ultimately show ?thesis by blast
qed

theorem loss_fn_nonneg_and_zero_on_self_witness:
  "loss_fn [[0, 0]] [[1, 3]] = 5 \<and> loss_fn [[1, 3]] [[1, 3]] = 0"
proof -
  have "loss_fn [[0, 0]] [[1, 3]] = (\<Sum>i\<leftarrow>[0..<length [0, 0 :: real]]. ([1, 3] ! i - [0, 0] ! i)\<^sup>2) / real (length [0, 0 :: real])"
    using loss_fn_nonneg_and_zero_on_self [of "[0, 0]" "[1, 3]"] by simp
  moreover have "loss_fn [[1, 3]] [[1, 3]] = 0"
    using loss_fn_nonneg_and_zero_on_self [of "[1, 3]" "[1, 3]"] by simp
  ultimately show ?thesis by (simp add: upt_rec)
qed

section \<open>Properties of the decoder\<close>

lemma length_dot_acc:
  "list_all (\<lambda>row. length row = length acc) W \<Longrightarrow>
   length (foldl (\<lambda>acc (xi, row). map2 (+) acc (map ((*) xi) row)) acc (zip x W)) = length acc"
proof (induction W arbitrary: acc x)
  case Nil
  then show ?case by simp
next
  case (Cons row W)
  show ?case
  proof (cases x)
    case Nil
    then show ?thesis by simp
  next
    case (Cons xi x')
    from Cons.prems have len: "length (map2 (+) acc (map ((*) xi) row)) = length acc"
      and rest: "list_all (\<lambda>r. length r = length acc) W" by simp_all
    have "length (foldl (\<lambda>acc (xi, row). map2 (+) acc (map ((*) xi) row))
            (map2 (+) acc (map ((*) xi) row)) (zip x' W)) = length (map2 (+) acc (map ((*) xi) row))"
      by (rule Cons.IH) (use rest len in simp)
    then show ?thesis using Cons len by simp
  qed
qed

lemma length_dot: "list_all (\<lambda>row. length row = n) W \<Longrightarrow> length (dot x W n) = n"
  unfolding dot_def using length_dot_acc [of "replicate n 0" W x] by simp

lemma length_dense_call:
  "list_all (\<lambda>row. length row = units l) (kernel l) \<Longrightarrow> length (bias l) = units l \<Longrightarrow>
   length (dense_call l x) = units l"
  by (simp add: dense_call_def length_dot)

lemma sigmoid_range: "0 \<le> activate sigmoid x \<and> activate sigmoid x \<le> 1"
proof -
  have "0 < exp (- x)" by simp
  then show ?thesis by (simp add: field_simps add_pos_pos)
qed

lemma dense_call_sigmoid_range:
  "activation l = sigmoid \<Longrightarrow> v \<in> set (dense_call l x) \<Longrightarrow> 0 \<le> v \<and> v \<le> 1"
  using sigmoid_range by (auto simp: dense_call_def simp del: activate.simps)

lemma is_decoder_layers:
  assumes "is_decoder model"
  obtains l1 l2 l3 l4 where "model = [l1, l2, l3, l4]"
    "units l4 = 28 * 28" "activation l4 = sigmoid"
    "list_all (\<lambda>row. length row = units l4) (kernel l4)" "length (bias l4) = units l4"
proof -
  from assms have cfg: "map (\<lambda>l. (units l, activation l)) model =
      [(128, relu), (256, relu), (512, relu), (28 * 28, sigmoid)]"
    and b: "built LATENT_DIM model"
    by (simp_all add: is_decoder_def get_config_def)
  from cfg obtain l1 l2 l3 l4 where m: "model = [l1, l2, l3, l4]"
    by (auto simp: map_eq_Cons_conv)
  from cfg m have "units l4 = 28 * 28" "activation l4 = sigmoid" by simp_all
  moreover from b m have "list_all (\<lambda>row. length row = units l4) (kernel l4)" "length (bias l4) = units l4"
    by simp_all
  ultimately show ?thesis using m that by blast
qed

lemma built_Dense_layer:
  "length (kernel (Dense_layer init n u act)) = n"
  "list_all (\<lambda>row. length row = u) (kernel (Dense_layer init n u act))"
  "length (bias (Dense_layer init n u act)) = u"
  by (simp_all add: Dense_layer_def list_all_iff)

lemma units_Dense_layer: "units (Dense_layer init n u act) = u"
  and activation_Dense_layer: "activation (Dense_layer init n u act) = act"
  by (simp_all add: Dense_layer_def)

lemma is_decoder_create_decoder: "is_decoder (create_decoder init)"
  by (simp add: is_decoder_def create_decoder_def get_config_def built_Dense_layer
        units_Dense_layer activation_Dense_layer)

text \<open>
  Claim C5. For a model with the decoder's architecture and a latent vector of
  \<open>LATENT_DIM\<close> entries, the decoder returns one row of 28 * 28 = 784 values, the size
  of a flattened target image, and every value lies in the interval from 0 to 1: the last
  layer has 784 units and the sigmoid activation.
\<close>

theorem decoder_output_shape_and_range:
  assumes "is_decoder model" and "length z = LATENT_DIM"
  shows "\<exists>out. call_model model [z] = [out] \<and> length out = 28 * 28 \<and>
               (\<forall>v \<in> set out. 0 \<le> v \<and> v \<le> 1)"
proof -
  from assms(1) obtain l1 l2 l3 l4 where m: "model = [l1, l2, l3, l4]"
    and u: "units l4 = 28 * 28" and a: "activation l4 = sigmoid"
    and k: "list_all (\<lambda>row. length row = units l4) (kernel l4)" and b: "length (bias l4) = units l4"
    by (rule is_decoder_layers)
  define h where "h = dense_call l3 (dense_call l2 (dense_call l1 z))"
  have out: "call_model model [z] = [dense_call l4 h]"
    by (simp add: call_model_def m h_def)
  have "length (dense_call l4 h) = 28 * 28"
    using length_dense_call [OF k b] u by simp
  moreover have "\<forall>v \<in> set (dense_call l4 h). 0 \<le> v \<and> v \<le> 1"
    using dense_call_sigmoid_range [OF a] by blast
  ultimately show ?thesis using out by blast
qed

theorem decoder_output_shape_and_range_witness:
  "\<exists>out. call_model (create_decoder (\<lambda>l i j. 0)) [[0, 0]] = [out] \<and> length out = 28 * 28 \<and>
               (\<forall>v \<in> set out. 0 \<le> v \<and> v \<le> 1)"
  using decoder_output_shape_and_range [OF is_decoder_create_decoder, of "[0, 0]" "\<lambda>l i j. 0"]
  by (simp add: LATENT_DIM_def)

section \<open>Properties of the export\<close>

lemma set_weights_get_weights:
  "get_config fresh = get_config model \<Longrightarrow>
   map (\<lambda>l. (map length (kernel l), length (bias l))) fresh =
   map (\<lambda>l. (map length (kernel l), length (bias l))) model \<Longrightarrow>
   set_weights fresh (get_weights model) = Inr model"
proof (induction fresh arbitrary: model)
  case Nil
  then show ?case by (simp add: get_weights_def get_config_def)
next
  case (Cons l ls)
  from Cons.prems(1) obtain l' ls' where m: "model = l' # ls'"
    by (cases model) (simp_all add: get_config_def)
  from Cons.prems m have cfg: "units l = units l'" "activation l = activation l'"
    and rest: "get_config ls = get_config ls'"
    and shp: "map length (kernel l') = map length (kernel l)" "length (bias l') = length (bias l)"
    and rest_shp: "map (\<lambda>l. (map length (kernel l), length (bias l))) ls =
                   map (\<lambda>l. (map length (kernel l), length (bias l))) ls'"
    by (simp_all add: get_config_def)
  have ih: "set_weights ls (get_weights ls') = Inr ls'"
    by (rule Cons.IH [OF rest rest_shp])
  have "l\<lparr>kernel := kernel l', bias := bias l'\<rparr> = l'"
    using cfg by simp
  then show ?case
    using ih shp m by (simp add: get_weights_def)
qed

lemma shape_of_built_kernel:
  "length k = n \<Longrightarrow> list_all (\<lambda>row. length row = u) k \<Longrightarrow> map length k = replicate n u"
  by (induction k arbitrary: n) auto

lemma built_shapes:
  "built n model \<Longrightarrow> built n model' \<Longrightarrow> map units model = map units model' \<Longrightarrow>
   map (\<lambda>l. (map length (kernel l), length (bias l))) model =
   map (\<lambda>l. (map length (kernel l), length (bias l))) model'"
proof (induction model arbitrary: n model')
  case Nil
  then show ?case by simp
next
  case (Cons l ls)
  from Cons.prems(3) obtain l' ls' where m: "model' = l' # ls'"
    by (cases model') simp_all
  from Cons.prems m have u: "units l = units l'" and us: "map units ls = map units ls'"
    by simp_all
  from Cons.prems(1) have k: "map length (kernel l) = replicate n (units l)"
    and b: "length (bias l) = units l" and r: "built (units l) ls"
    by (simp_all add: shape_of_built_kernel)
  from Cons.prems(2) m have k': "map length (kernel l') = replicate n (units l')"
    and b': "length (bias l') = units l'" and r': "built (units l') ls'"
    by (simp_all add: shape_of_built_kernel)
  from Cons.IH [OF r _ us] r' u have "map (\<lambda>l. (map length (kernel l), length (bias l))) ls =
     map (\<lambda>l. (map length (kernel l), length (bias l))) ls'" by simp
  then show ?case using m k k' b b' u by simp
qed

lemma export_model_is_decoder:
  assumes "is_decoder trained"
  shows "export_model init trained = Inr trained"
proof -
  have f: "is_decoder (create_decoder init)" by (rule is_decoder_create_decoder)
  from f assms have cfg: "get_config (create_decoder init) = get_config trained"
    by (simp add: is_decoder_def)
  then have "map fst (get_config (create_decoder init)) = map fst (get_config trained)" by simp
  then have us: "map units (create_decoder init) = map units trained"
    by (simp add: get_config_def comp_def)
  from f assms have "built LATENT_DIM (create_decoder init)" "built LATENT_DIM trained"
    by (simp_all add: is_decoder_def)
  from built_shapes [OF this us] cfg show ?thesis
    unfolding export_model_def by (rule set_weights_get_weights [rotated])
qed

text \<open>
  Claim C10. The export model is a fresh \<open>create_decoder\<close> model whose weights are set
  from the trained decoder's. For a trained decoder (a model with the decoder's
  architecture, whatever its weights) \<open>set_weights\<close> accepts the weights, and the export
  model then returns the trained decoder's output on every batch of latent vectors.
\<close>

theorem export_model_computes_decoder:
  assumes "is_decoder trained"
  shows "\<exists>exported. export_model init trained = Inr exported \<and>
           (\<forall>batch. predict exported batch = predict trained batch)"
  using export_model_is_decoder [OF assms] by simp

theorem export_model_computes_decoder_witness:
  "\<exists>exported. export_model (\<lambda>l i j. 0) (create_decoder (\<lambda>l i j. 1)) = Inr exported \<and>
           (\<forall>batch. predict exported batch = predict (create_decoder (\<lambda>l i j. 1)) batch)"
  using export_model_computes_decoder [OF is_decoder_create_decoder] by blast

section \<open>Properties of a training step\<close>









lemma one_row_per_sample_initial: "one_row_per_sample (initial_globals xs ys rnd init)"
  by (simp add: one_row_per_sample_def initial_globals_def NUM_SHAPES_def zeros_like_def Let_def)

lemma NUM_SHAPES_initial: "NUM_SHAPES (initial_globals xs ys rnd init) = length xs"
  by (simp add: initial_globals_def NUM_SHAPES_def Let_def)

lemma two_samples_fields:
  "latent_codes two_samples = [[0, 0], [0, 0]]"
  "m_latent (optimizer two_samples) = [[0, 0], [0, 0]]"
  "v_latent (optimizer two_samples) = [[0, 0], [0, 0]]"
  "iterations (optimizer two_samples) = 0"
  "NUM_SHAPES two_samples = 2"
  by (simp_all add: two_samples_def initial_globals_def Let_def LATENT_DIM_def zeros_like_def
        NUM_SHAPES_def numeral_2_eq_2)

lemma two_samples_data:
  "x_data two_samples = [blank_image, blank_image]"
  "y_data two_samples = [0, 1]"
  "decoder two_samples = create_decoder (\<lambda>l i j. 0)"
  "progress two_samples = []"
  by (simp_all add: two_samples_def initial_globals_def Let_def)

lemma two_samples_ok: "one_row_per_sample two_samples" "is_decoder (decoder two_samples)"
  by (simp_all add: two_samples_def one_row_per_sample_initial)
     (simp add: initial_globals_def Let_def is_decoder_create_decoder)
















section \<open>Properties of the training loop\<close>











lemma train_epoch_no_samples:
  "NUM_SHAPES s = 0 \<Longrightarrow> train_epoch tape interval s epoch = Inl (ZeroDivisionError, s)"
  by (simp add: train_epoch_def)

text \<open>
  Claim C8, as amended. The script has no check of the sample count. With no sample and
  at least one epoch to run, the first epoch trains nothing and then divides the integer
  0 by the sample count 0: the loop stops there with \<^verbatim>\<open>ZeroDivisionError\<close>, before anything
  is appended to the loss history or printed.
\<close>

theorem empty_dataset_raises_zero_division:
  assumes "NUM_SHAPES s = 0" and "1 \<le> n_epochs"
  shows "main_training_loop tape n_epochs interval s = Inl (ZeroDivisionError, s\<lparr>loss_history := []\<rparr>)"
proof -
  have "NUM_SHAPES (s\<lparr>loss_history := []\<rparr>) = 0" using assms(1) by (simp add: NUM_SHAPES_def)
  then show ?thesis
    using assms(2) by (simp add: main_training_loop_def upto_rec1 [of 1 n_epochs] train_epoch_no_samples)
qed

theorem empty_dataset_raises_zero_division_witness:
  "main_training_loop unit_tape 1 display_interval no_samples =
     Inl (ZeroDivisionError, no_samples\<lparr>loss_history := []\<rparr>)"
proof -
  have "NUM_SHAPES no_samples = 0"
    by (simp add: NUM_SHAPES_def no_samples_def initial_globals_def Let_def)
  from empty_dataset_raises_zero_division [OF this, of 1 unit_tape display_interval]
  show ?thesis by simp
qed

text \<open>
  The claim as stated fails: with no sample and no epoch to run the loop returns without
  any error, and with the script's 10000 epochs the error it raises is the arithmetic one
  of the division, not a configuration error.
\<close>

theorem empty_dataset_counterexample:
  "main_training_loop unit_tape 0 display_interval no_samples = Inr (no_samples\<lparr>loss_history := []\<rparr>) \<and>
   main_training_loop unit_tape epochs display_interval no_samples =
     Inl (ZeroDivisionError, no_samples\<lparr>loss_history := []\<rparr>)"
proof
  show "main_training_loop unit_tape 0 display_interval no_samples = Inr (no_samples\<lparr>loss_history := []\<rparr>)"
    by (simp add: main_training_loop_def)
  have "NUM_SHAPES (no_samples\<lparr>loss_history := []\<rparr>) = 0"
    by (simp add: NUM_SHAPES_def no_samples_def initial_globals_def Let_def)
  then show "main_training_loop unit_tape epochs display_interval no_samples =
     Inl (ZeroDivisionError, no_samples\<lparr>loss_history := []\<rparr>)"
    by (simp add: main_training_loop_def epochs_def upto_rec1 [of 1 10000] train_epoch_no_samples)
qed

section \<open>The decoder under training\<close>

lemma map_length_map2_rows:
  assumes "map length a = map length b" and "\<And>x y. length x = length y \<Longrightarrow> length (f x y) = length x"
  shows "map length (map2 f a b) = map length a"
  using assms(1)
proof (induction a arbitrary: b)
  case Nil
  then show ?case by simp
next
  case (Cons x a)
  then obtain y b' where b: "b = y # b'" by (cases b) auto
  with Cons.prems have "length x = length y" "map length a = map length b'" by simp_all
  then show ?case using Cons.IH [of b'] assms(2) b by simp
qed

lemma length_moment1: "length m = length g \<Longrightarrow> length (moment1 m g) = length m"
  and length_moment2: "length v = length g \<Longrightarrow> length (moment2 v g) = length v"
  by (simp_all add: moment1_def moment2_def)

lemma length_assign_sub_vec:
  "length m = length x \<Longrightarrow> length v = length x \<Longrightarrow> length (assign_sub_vec lr x m v) = length x"
  by (simp add: assign_sub_vec_def)

lemma shape_assign_sub_mat:
  assumes "map length m = map length x" and "map length v = map length x"
  shows "map length (assign_sub_mat lr x m v) = map length x"
  using assms
proof (induction x arbitrary: m v)
  case Nil
  then show ?case by (simp add: assign_sub_mat_def)
next
  case (Cons r x)
  from Cons.prems obtain mr m' vr v' where mv: "m = mr # m'" "v = vr # v'"
    by (cases m; cases v) auto
  with Cons.prems have l: "length mr = length r" "length vr = length r"
    and r: "map length m' = map length x" "map length v' = map length x" by simp_all
  from Cons.IH [OF r] have "map length (assign_sub_mat lr x m' v') = map length x" .
  then show ?case using mv l by (simp add: assign_sub_mat_def length_assign_sub_vec)
qed

lemma shapes_iff:
  "shapes a = shapes w \<longleftrightarrow>
     length a = length w \<and>
     (\<forall>i < length w. map length (fst (a ! i)) = map length (fst (w ! i)) \<and>
                        length (snd (a ! i)) = length (snd (w ! i)))"
  by (auto simp: shapes_def list_eq_iff_nth_eq case_prod_beta)

lemma shape_moment1_rows:
  "map length mk = map length k \<Longrightarrow> map length gk = map length k \<Longrightarrow>
   map length (map2 moment1 mk gk) = map length k"
  using map_length_map2_rows [of mk gk moment1] by (simp add: length_moment1)

lemma shape_moment2_rows:
  "map length vk = map length k \<Longrightarrow> map length gk = map length k \<Longrightarrow>
   map length (map2 moment2 vk gk) = map length k"
  using map_length_map2_rows [of vk gk moment2] by (simp add: length_moment2)

lemma adam_dense_shapes:
  assumes "adam_dense lr (w, m, v) g = (w', m', v')"
    and "shapes m = shapes w" "shapes v = shapes w" "shapes g = shapes w"
  shows "shapes w' = shapes w" "shapes m' = shapes w" "shapes v' = shapes w"
proof -
  define m1 where "m1 = map2 (\<lambda>(mk, mb) (gk, gb). (map2 moment1 mk gk, moment1 mb gb)) m g"
  define v1 where "v1 = map2 (\<lambda>(vk, vb) (gk, gb). (map2 moment2 vk gk, moment2 vb gb)) v g"
  from assms(1) have eqs: "m' = m1" "v' = v1"
    "w' = map2 (\<lambda>(k, b) ((mk, mb), (vk, vb)).
                   (assign_sub_mat lr k mk vk, assign_sub_vec lr b mb vb)) w (zip m1 v1)"
    unfolding adam_dense_def Let_def m1_def v1_def by auto
  from assms(2,3,4) have len: "length m = length w" "length v = length w" "length g = length w"
    and at: "\<And>i. i < length w \<Longrightarrow>
        map length (fst (m ! i)) = map length (fst (w ! i)) \<and> length (snd (m ! i)) = length (snd (w ! i)) \<and>
        map length (fst (v ! i)) = map length (fst (w ! i)) \<and> length (snd (v ! i)) = length (snd (w ! i)) \<and>
        map length (fst (g ! i)) = map length (fst (w ! i)) \<and> length (snd (g ! i)) = length (snd (w ! i))"
    by (simp_all add: shapes_iff)
  have lm1: "length m1 = length w" and lv1: "length v1 = length w"
    using len by (simp_all add: m1_def v1_def)
  have m1_at: "m1 ! i = (map2 moment1 (fst (m ! i)) (fst (g ! i)), moment1 (snd (m ! i)) (snd (g ! i)))"
    and v1_at: "v1 ! i = (map2 moment2 (fst (v ! i)) (fst (g ! i)), moment2 (snd (v ! i)) (snd (g ! i)))"
    if "i < length w" for i
    using that len by (simp_all add: m1_def v1_def case_prod_beta)
  have sm: "shapes m1 = shapes w"
    unfolding shapes_iff
  proof (intro conjI allI impI)
    show "length m1 = length w" by (rule lm1)
  next
    fix i assume i: "i < length w"
    show "map length (fst (m1 ! i)) = map length (fst (w ! i))"
      using at [OF i] by (simp add: m1_at [OF i] shape_moment1_rows del: map_map)
    show "length (snd (m1 ! i)) = length (snd (w ! i))"
      using at [OF i] by (simp add: m1_at [OF i] length_moment1)
  qed
  have sv: "shapes v1 = shapes w"
    unfolding shapes_iff
  proof (intro conjI allI impI)
    show "length v1 = length w" by (rule lv1)
  next
    fix i assume i: "i < length w"
    show "map length (fst (v1 ! i)) = map length (fst (w ! i))"
      using at [OF i] by (simp add: v1_at [OF i] shape_moment2_rows del: map_map)
    show "length (snd (v1 ! i)) = length (snd (w ! i))"
      using at [OF i] by (simp add: v1_at [OF i] length_moment2)
  qed
  have "shapes (map2 (\<lambda>(k, b) ((mk, mb), (vk, vb)).
                   (assign_sub_mat lr k mk vk, assign_sub_vec lr b mb vb)) w (zip m1 v1)) = shapes w"
    unfolding shapes_iff
  proof (intro conjI allI impI)
    show "length (map2 (\<lambda>(k, b) ((mk, mb), (vk, vb)).
                   (assign_sub_mat lr k mk vk, assign_sub_vec lr b mb vb)) w (zip m1 v1)) = length w"
      using lm1 lv1 by simp
  next
    fix i assume i: "i < length w"
    from sm sv i have s: "map length (fst (m1 ! i)) = map length (fst (w ! i))"
      "length (snd (m1 ! i)) = length (snd (w ! i))"
      "map length (fst (v1 ! i)) = map length (fst (w ! i))"
      "length (snd (v1 ! i)) = length (snd (w ! i))"
      by (simp_all add: shapes_iff)
    have e: "map2 (\<lambda>(k, b) ((mk, mb), (vk, vb)).
                   (assign_sub_mat lr k mk vk, assign_sub_vec lr b mb vb)) w (zip m1 v1) ! i =
       (assign_sub_mat lr (fst (w ! i)) (fst (m1 ! i)) (fst (v1 ! i)),
        assign_sub_vec lr (snd (w ! i)) (snd (m1 ! i)) (snd (v1 ! i)))"
      using i lm1 lv1 by (simp add: case_prod_beta)
    show "map length (fst (map2 (\<lambda>(k, b) ((mk, mb), (vk, vb)).
                   (assign_sub_mat lr k mk vk, assign_sub_vec lr b mb vb)) w (zip m1 v1) ! i)) =
       map length (fst (w ! i))"
      unfolding e using s by (simp add: shape_assign_sub_mat)
    show "length (snd (map2 (\<lambda>(k, b) ((mk, mb), (vk, vb)).
                   (assign_sub_mat lr k mk vk, assign_sub_vec lr b mb vb)) w (zip m1 v1) ! i)) =
       length (snd (w ! i))"
      unfolding e using s by (simp add: length_assign_sub_vec)
  qed
  then show "shapes w' = shapes w" using eqs by simp
  show "shapes m' = shapes w" "shapes v' = shapes w" using sm sv eqs by simp_all
qed

lemma built_same_shapes:
  "get_config d' = get_config d \<Longrightarrow> shapes (get_weights d') = shapes (get_weights d) \<Longrightarrow>
   built n d \<Longrightarrow> built n d'"
proof (induction d arbitrary: d' n)
  case Nil
  then show ?case by (simp add: get_config_def)
next
  case (Cons l ls)
  from Cons.prems(1) obtain l' ls' where d': "d' = l' # ls'"
    by (cases d') (simp_all add: get_config_def)
  from Cons.prems d' have u: "units l' = units l"
    and cfg: "get_config ls' = get_config ls"
    and k: "map length (kernel l') = map length (kernel l)"
    and b: "length (bias l') = length (bias l)"
    and sh: "shapes (get_weights ls') = shapes (get_weights ls)"
    by (simp_all add: get_config_def get_weights_def shapes_def)
  from Cons.prems(3) have bl: "length (kernel l) = n"
    "list_all (\<lambda>row. length row = units l) (kernel l)" "length (bias l) = units l"
    "built (units l) ls" by simp_all
  have "length (kernel l') = n" using arg_cong [OF k, of length] bl(1) by simp
  moreover have "list_all (\<lambda>row. length row = units l') (kernel l')"
  proof -
    have "set (map length (kernel l')) = set (map length (kernel l))" using k by simp
    then have "length ` set (kernel l') = length ` set (kernel l)" by simp
    moreover have "\<forall>x \<in> length ` set (kernel l). x = units l"
      using bl(2) by (auto simp: list_all_iff)
    ultimately show ?thesis using u by (auto simp: list_all_iff)
  qed
  moreover have "length (bias l') = units l'" using b bl(3) u by simp
  moreover have "built (units l') ls'" using Cons.IH [OF cfg sh bl(4)] u by simp
  ultimately show ?case using d' by simp
qed

lemma assign_weights:
  "length w = length model \<Longrightarrow>
   get_config (map2 (\<lambda>l (k, b). l\<lparr>kernel := k, bias := b\<rparr>) model w) = get_config model \<and>
   get_weights (map2 (\<lambda>l (k, b). l\<lparr>kernel := k, bias := b\<rparr>) model w) = w"
  by (induction model w rule: list_induct2') (auto simp: get_config_def get_weights_def)

lemma train_step_decoder:
  assumes r: "train_step tape s idx target = Inr (s', loss)"
    and d: "is_decoder (decoder s)" and o: "decoder_slots_ok s" and t: "tape_shaped tape"
  shows "is_decoder (decoder s') \<and> decoder_slots_ok s'"
proof -
  from r obtain z where z: "gather (latent_codes s) idx = Inr z"
    by (cases "gather (latent_codes s) idx") (simp_all add: train_step_def)
  define g where "g = snd (tape (decoder s) z target)"
  define lr where "lr = adam_lr (iterations (optimizer s) + 1)"
  obtain w' md vd where a: "adam_dense lr (get_weights (decoder s), m_decoder (optimizer s),
      v_decoder (optimizer s)) g = (w', md, vd)"
    by (cases "adam_dense lr (get_weights (decoder s), m_decoder (optimizer s),
      v_decoder (optimizer s)) g") auto
  from r z a have s': "decoder s' = map2 (\<lambda>l (k, b). l\<lparr>kernel := k, bias := b\<rparr>) (decoder s) w'"
    "m_decoder (optimizer s') = md" "v_decoder (optimizer s') = vd"
    by (auto simp: train_step_def apply_gradients_def Let_def g_def lr_def split: prod.splits)
  have gs: "shapes g = shapes (get_weights (decoder s))"
    using t by (simp add: tape_shaped_def g_def)
  from o have ms: "shapes (m_decoder (optimizer s)) = shapes (get_weights (decoder s))"
    "shapes (v_decoder (optimizer s)) = shapes (get_weights (decoder s))"
    by (simp_all add: decoder_slots_ok_def)
  note sh = adam_dense_shapes [OF a ms gs]
  have "length w' = length (decoder s)"
    using arg_cong [OF sh(1), of length] by (simp add: shapes_def get_weights_def)
  from assign_weights [OF this] s'(1)
  have cfg: "get_config (decoder s') = get_config (decoder s)"
    and w: "get_weights (decoder s') = w'" by simp_all
  have "built LATENT_DIM (decoder s')"
    using built_same_shapes [OF cfg] w sh(1) d by (simp add: is_decoder_def)
  then have "is_decoder (decoder s')" using cfg d by (simp add: is_decoder_def)
  moreover have "decoder_slots_ok s'"
    using sh w s'(2,3) by (simp add: decoder_slots_ok_def)
  ultimately show ?thesis ..
qed

lemma train_shapes_decoder:
  assumes "tape_shaped tape"
  shows "train_shapes tape s is acc = Inr (s', l) \<Longrightarrow> is_decoder (decoder s) \<Longrightarrow>
     decoder_slots_ok s \<Longrightarrow> is_decoder (decoder s') \<and> decoder_slots_ok s'"
proof (induction "is" arbitrary: s acc)
  case Nil
  then show ?case by simp
next
  case (Cons i rest)
  from Cons.prems(1) obtain s1 loss where
    r: "train_step tape s [i] (take 1 (drop i (x_data_flat s))) = Inr (s1, loss)"
    and r': "train_shapes tape s1 rest (acc + loss) = Inr (s', l)"
    by (auto split: sum.splits)
  from train_step_decoder [OF r Cons.prems(2,3) assms]
  have "is_decoder (decoder s1)" "decoder_slots_ok s1" by simp_all
  from Cons.IH [OF r' this] show ?case .
qed

lemma decoder_slots_ok_update:
  "decoder_slots_ok (s\<lparr>loss_history := h\<rparr>) = decoder_slots_ok s"
  "decoder_slots_ok (s\<lparr>progress := p\<rparr>) = decoder_slots_ok s"
  by (simp_all add: decoder_slots_ok_def)

lemma train_epoch_decoder:
  assumes "tape_shaped tape" and "train_epoch tape interval s epoch = Inr s'"
    and "is_decoder (decoder s)" and "decoder_slots_ok s"
  shows "is_decoder (decoder s') \<and> decoder_slots_ok s'"
proof -
  from assms(2) obtain s1 l where r: "train_shapes tape s [0..<NUM_SHAPES s] 0 = Inr (s1, l)"
    by (auto simp: train_epoch_def split: sum.splits)
  from train_shapes_decoder [OF assms(1) r assms(3,4)]
  have ok: "is_decoder (decoder s1)" "decoder_slots_ok s1" by simp_all
  from assms(2) r have "decoder s' = decoder s1 \<and> optimizer s' = optimizer s1"
    by (auto simp: train_epoch_def Let_def split: if_splits)
  then show ?thesis using ok by (simp add: decoder_slots_ok_def)
qed

lemma training_loop_decoder:
  assumes "tape_shaped tape"
  shows "training_loop tape interval s es = Inr s' \<Longrightarrow> is_decoder (decoder s) \<Longrightarrow>
     decoder_slots_ok s \<Longrightarrow> is_decoder (decoder s') \<and> decoder_slots_ok s'"
proof (induction es arbitrary: s)
  case Nil
  then show ?case by simp
next
  case (Cons e es)
  from Cons.prems(1) obtain s1 where r: "train_epoch tape interval s e = Inr s1"
    and r': "training_loop tape interval s1 es = Inr s'"
    by (auto split: sum.splits)
  from train_epoch_decoder [OF assms r Cons.prems(2,3)]
  have "is_decoder (decoder s1)" "decoder_slots_ok s1" by simp_all
  from Cons.IH [OF r' this] show ?case .
qed

lemma decoder_slots_ok_initial: "decoder_slots_ok (initial_globals xs ys rnd init)"
  by (simp add: decoder_slots_ok_def initial_globals_def Let_def shapes_def zeros_like_def
        comp_def case_prod_beta)

text \<open>
  The decoder that training leaves behind has the architecture of \<open>create_decoder\<close>: the
  updates change the values of the weights, never their shapes (for a tape that returns
  gradients of the shapes of the weights).
\<close>

lemma trained_decoder_is_decoder:
  assumes "tape_shaped tape"
    and "main_training_loop tape n interval (initial_globals xs ys rnd init) = Inr s'"
  shows "is_decoder (decoder s')"
proof -
  let ?s0 = "(initial_globals xs ys rnd init)\<lparr>loss_history := []\<rparr>"
  have "is_decoder (decoder ?s0)"
    by (simp add: initial_globals_def Let_def is_decoder_create_decoder)
  moreover have "decoder_slots_ok ?s0"
    by (simp add: decoder_slots_ok_update decoder_slots_ok_initial)
  ultimately show ?thesis
    using training_loop_decoder [OF assms(1), of interval ?s0 "[1..n]" s'] assms(2)
    by (simp add: main_training_loop_def)
qed

lemma tape_shaped_unit_tape: "tape_shaped unit_tape"
  by (simp add: tape_shaped_def unit_tape_def shapes_def zeros_like_def comp_def case_prod_beta)

section \<open>Properties of the sampler\<close>

lemma length_linspace: "length (linspace start stop num) = num"
  by (simp add: linspace_def)

lemma linspace_nth:
  assumes "a < num"
  shows "linspace start stop num ! a = start + real a * ((stop - start) / real (num - 1))"
proof -
  consider "num = 1" | "2 \<le> num" "a < num - 1" | "2 \<le> num" "a = num - 1"
    using assms by linarith
  then show ?thesis
  proof cases
    case 1
    then show ?thesis using assms by (simp add: linspace_def)
  next
    case 2
    then show ?thesis by (simp add: linspace_def nth_append)
  next
    case 3
    then have "real a * ((stop - start) / real (num - 1)) = stop - start" by simp
    then show ?thesis using 3 by (simp add: linspace_def nth_append)
  qed
qed

lemma zip_nth_conv:
  "length xs = length ys \<Longrightarrow> zip xs ys = map (\<lambda>i. (xs ! i, ys ! i)) [0..<length xs]"
  by (rule nth_equalityI) simp_all

lemma sum_list_concat_map: "sum_list (concat (map f xs)) = (\<Sum>x\<leftarrow>xs. sum_list (f x))"
  for f :: "'a \<Rightarrow> real list"
  by (induction xs) simp_all

lemma broadcast_same_length: "length a = length b \<Longrightarrow> broadcast a b = Inr (zip a b)"
  by (simp add: broadcast_def)

lemma collect_all_Inr:
  "(\<And>x. x \<in> set xs \<Longrightarrow> g x = Inr (f x)) \<Longrightarrow> collect (map g xs) = Inr (map f xs)"
  by (induction xs) simp_all

lemma is_image_rows: "is_image a \<Longrightarrow> length a = 28" "is_image a \<Longrightarrow> r < 28 \<Longrightarrow> length (a ! r) = 28"
  by (simp_all add: is_image_def list_all_length)

text \<open>On two 28 x 28 arrays the distance is the sum over all pixel positions.\<close>

lemma l2_dist_images:
  assumes "is_image img" and "is_image shape_img"
  shows "l2_dist img shape_img =
     Inr (\<Sum>r\<leftarrow>[0..<28]. \<Sum>c\<leftarrow>[0..<28]. (img ! r ! c - shape_img ! r ! c)\<^sup>2)"
proof -
  have len: "length img = 28" "length shape_img = 28"
    using assms by (simp_all add: is_image_rows)
  have rows: "broadcast img shape_img = Inr (map (\<lambda>r. (img ! r, shape_img ! r)) [0..<28])"
    using len zip_nth_conv [of img shape_img] by (simp add: broadcast_same_length)
  have cells: "collect (map (\<lambda>(r, r'). broadcast r r') (map (\<lambda>r. (img ! r, shape_img ! r)) [0..<28])) =
      Inr (map (\<lambda>r. map (\<lambda>c. (img ! r ! c, shape_img ! r ! c)) [0..<28]) [0..<28])"
  proof -
    have "broadcast (img ! r) (shape_img ! r) =
        Inr (map (\<lambda>c. (img ! r ! c, shape_img ! r ! c)) [0..<28])" if "r \<in> set [0..<28]" for r
    proof -
      from that have r: "r < 28" by simp
      have l: "length (img ! r) = 28" "length (shape_img ! r) = 28"
        using assms r by (simp_all add: is_image_rows)
      show ?thesis
        using l zip_nth_conv [of "img ! r" "shape_img ! r"] by (simp add: broadcast_same_length)
    qed
    from collect_all_Inr [of "[0..<28]" "\<lambda>r. broadcast (img ! r) (shape_img ! r)", OF this]
    show ?thesis by (simp add: comp_def)
  qed
  have "sum_list (map (\<lambda>(a, b). (a - b)\<^sup>2)
          (concat (map (\<lambda>r. map (\<lambda>c. (img ! r ! c, shape_img ! r ! c)) [0..<28]) [0..<28]))) =
        (\<Sum>r\<leftarrow>[0..<28]. \<Sum>c\<leftarrow>[0..<28]. (img ! r ! c - shape_img ! r ! c)\<^sup>2)"
    by (simp add: map_concat sum_list_concat_map comp_def)
  then show ?thesis
    by (simp add: l2_dist_def rows cells del: map_map)
qed

text \<open>The image that \<open>reshape\<close> makes of one decoded row of 784 values.\<close>

lemma reshape_row:
  assumes "length out = 28 * 28"
  shows "\<exists>img. reshape 28 28 [out] = Inr img \<and> is_image img \<and>
     (\<forall>r < 28. \<forall>c < 28. img ! r ! c = out ! (r * 28 + c))"
proof -
  define img where "img = map (\<lambda>r. take 28 (drop (r * 28) out)) [0..<28]"
  have r: "reshape 28 28 [out] = Inr img"
    using assms by (simp add: reshape_def img_def)
  have row: "length (img ! r) = 28" if "r < 28" for r
    using that assms by (simp add: img_def)
  have "is_image img"
    using row by (simp add: is_image_def list_all_length img_def)
  moreover have "img ! r ! c = out ! (r * 28 + c)" if "r < 28" "c < 28" for r c
    using that assms by (simp add: img_def)
  ultimately show ?thesis using r by blast
qed

lemma l2_dist_reshaped:
  assumes "length out = 28 * 28" and "reshape 28 28 [out] = Inr img" and "is_image shape_img"
  shows "l2_dist img shape_img = Inr (sum_squared_differences out shape_img)"
proof -
  from reshape_row [OF assms(1)] assms(2) have i: "is_image img"
    and at: "\<forall>r < 28. \<forall>c < 28. img ! r ! c = out ! (r * 28 + c)"
    by auto
  have "(\<Sum>r\<leftarrow>[0..<28]. \<Sum>c\<leftarrow>[0..<28]. (img ! r ! c - shape_img ! r ! c)\<^sup>2) =
        (\<Sum>r\<leftarrow>[0..<28]. \<Sum>c\<leftarrow>[0..<28]. (out ! (r * 28 + c) - shape_img ! r ! c)\<^sup>2)"
  proof (rule arg_cong [where f = sum_list], rule map_cong [OF refl])
    fix r assume "r \<in> set [0..<28]"
    then have r: "r < 28" by simp
    show "(\<Sum>c\<leftarrow>[0..<28]. (img ! r ! c - shape_img ! r ! c)\<^sup>2) =
          (\<Sum>c\<leftarrow>[0..<28]. (out ! (r * 28 + c) - shape_img ! r ! c)\<^sup>2)"
      by (rule arg_cong [where f = sum_list], rule map_cong [OF refl]) (use at r in simp)
  qed
  with l2_dist_images [OF i assms(3)] show ?thesis
    by (simp add: sum_squared_differences_def)
qed

lemma predict_decoder_row:
  assumes "is_decoder model"
  shows "\<exists>out. predict model [z] = [out] \<and> length out = 28 * 28"
proof -
  from assms obtain l1 l2 l3 l4 where m: "model = [l1, l2, l3, l4]"
    and u: "units l4 = 28 * 28"
    and k: "list_all (\<lambda>row. length row = units l4) (kernel l4)" and b: "length (bias l4) = units l4"
    by (rule is_decoder_layers)
  show ?thesis
    using length_dense_call [OF k b] u by (simp add: predict_def call_model_def m)
qed

lemma below_simps: "below x None" "below x (Some d) = (x < d)"
  by (simp_all add: below_def)

lemma below_trans: "x < y \<Longrightarrow> below y md \<Longrightarrow> below x md"
  by (cases md) (simp_all add: below_def)

text \<open>
  The loop invariant of the search, for distances \<open>f i\<close> that are all computed without
  error: either no distance in the list improves on \<open>min_dist\<close> and the label is the one
  carried in, or the label is that of the first index of the list whose distance is
  minimal.
\<close>

lemma closest_loop_first_min:
  assumes "\<forall>i \<in> set is. i < length ys" and "\<forall>i \<in> set is. l2_dist img (xs ! i) = Inr (f i)"
  shows "\<exists>r. closest_loop img xs ys is md c = Inr r \<and>
     ((\<forall>i \<in> set is. \<not> below (f i) md) \<and> r = c \<or>
      (\<exists>pre k post. is = pre @ k # post \<and> r = ys ! k \<and> below (f k) md \<and>
         (\<forall>j \<in> set pre. f k < f j) \<and> (\<forall>j \<in> set post. f k \<le> f j)))"
  using assms
proof (induction "is" arbitrary: md c)
  case Nil
  then show ?case by simp
next
  case (Cons i rest)
  from Cons.prems have i: "i < length ys" and rest: "\<forall>k \<in> set rest. k < length ys"
    and d: "l2_dist img (xs ! i) = Inr (f i)"
    and ds: "\<forall>k \<in> set rest. l2_dist img (xs ! k) = Inr (f k)"
    by simp_all
  show ?case
  proof (cases "below (f i) md")
    case True
    then have step: "closest_loop img xs ys (i # rest) md c = closest_loop img xs ys rest (Some (f i)) (ys ! i)"
      using i d by (simp add: Let_def)
    from Cons.IH [OF rest ds, of "Some (f i)" "ys ! i"]
    obtain r where r: "closest_loop img xs ys rest (Some (f i)) (ys ! i) = Inr r"
      and alt: "(\<forall>k \<in> set rest. \<not> f k < f i) \<and> r = ys ! i \<or>
        (\<exists>pre k post. rest = pre @ k # post \<and> r = ys ! k \<and> f k < f i \<and>
           (\<forall>j \<in> set pre. f k < f j) \<and> (\<forall>j \<in> set post. f k \<le> f j))"
      by (auto simp: below_simps)
    from alt have "\<exists>pre k post. i # rest = pre @ k # post \<and> r = ys ! k \<and> below (f k) md \<and>
         (\<forall>j \<in> set pre. f k < f j) \<and> (\<forall>j \<in> set post. f k \<le> f j)"
    proof
      assume a: "(\<forall>k \<in> set rest. \<not> f k < f i) \<and> r = ys ! i"
      have "i # rest = [] @ i # rest \<and> r = ys ! i \<and> below (f i) md \<and>
         (\<forall>j \<in> set []. f i < f j) \<and> (\<forall>j \<in> set rest. f i \<le> f j)"
        using a True by (auto simp: not_less)
      then show ?thesis by (intro exI)
    next
      assume "\<exists>pre k post. rest = pre @ k # post \<and> r = ys ! k \<and> f k < f i \<and>
           (\<forall>j \<in> set pre. f k < f j) \<and> (\<forall>j \<in> set post. f k \<le> f j)"
      then obtain pre k post where b: "rest = pre @ k # post" "r = ys ! k" "f k < f i"
        "\<forall>j \<in> set pre. f k < f j" "\<forall>j \<in> set post. f k \<le> f j"
        by blast
      have "i # rest = (i # pre) @ k # post \<and> r = ys ! k \<and> below (f k) md \<and>
         (\<forall>j \<in> set (i # pre). f k < f j) \<and> (\<forall>j \<in> set post. f k \<le> f j)"
        using b below_trans [OF b(3) True] by simp
      then show ?thesis by (intro exI)
    qed
    then show ?thesis using step r by simp
  next
    case False
    then have step: "closest_loop img xs ys (i # rest) md c = closest_loop img xs ys rest md c"
      using d by (simp add: Let_def)
    from Cons.IH [OF rest ds, of md c]
    obtain r where r: "closest_loop img xs ys rest md c = Inr r"
      and alt: "(\<forall>k \<in> set rest. \<not> below (f k) md) \<and> r = c \<or>
        (\<exists>pre k post. rest = pre @ k # post \<and> r = ys ! k \<and> below (f k) md \<and>
           (\<forall>j \<in> set pre. f k < f j) \<and> (\<forall>j \<in> set post. f k \<le> f j))"
      by blast
    from alt show ?thesis
    proof
      assume "(\<forall>k \<in> set rest. \<not> below (f k) md) \<and> r = c"
      then have "(\<forall>k \<in> set (i # rest). \<not> below (f k) md) \<and> r = c"
        using False by simp
      then show ?thesis using step r by simp
    next
      assume "\<exists>pre k post. rest = pre @ k # post \<and> r = ys ! k \<and> below (f k) md \<and>
           (\<forall>j \<in> set pre. f k < f j) \<and> (\<forall>j \<in> set post. f k \<le> f j)"
      then obtain pre k post where b: "rest = pre @ k # post" "r = ys ! k" "below (f k) md"
        "\<forall>j \<in> set pre. f k < f j" "\<forall>j \<in> set post. f k \<le> f j"
        by blast
      have "f k < f i"
        using False b(3) by (cases md) (auto simp: below_def)
      then have "i # rest = (i # pre) @ k # post \<and> r = ys ! k \<and> below (f k) md \<and>
         (\<forall>j \<in> set (i # pre). f k < f j) \<and> (\<forall>j \<in> set post. f k \<le> f j)"
        using b by simp
      then have "\<exists>pre k post. i # rest = pre @ k # post \<and> r = ys ! k \<and> below (f k) md \<and>
         (\<forall>j \<in> set pre. f k < f j) \<and> (\<forall>j \<in> set post. f k \<le> f j)"
        by (intro exI)
      then show ?thesis using step r by simp
    qed
  qed
qed

lemma upt_split_at:
  assumes "[0..<n] = pre @ k # post"
  shows "k = length pre" "k < n" "set pre = {..<k}" "set post = {k<..<n}"
proof -
  have len: "n = length pre + Suc (length post)"
    using arg_cong [OF assms, of length] by simp
  then have lp: "0 + length pre < n" by simp
  have "(pre @ k # post) ! length pre = k" by simp
  moreover have "[0..<n] ! length pre = 0 + length pre" using lp by (rule nth_upt)
  ultimately show k: "k = length pre" using assms by simp
  show kn: "k < n" using k len by simp
  have "take k [0..<n] = pre" unfolding assms using k by simp
  moreover have "take k [0..<n] = [0..<k]" using kn by (simp add: take_upt)
  ultimately have "pre = [0..<k]" by simp
  then show "set pre = {..<k}" by auto
  have "drop (Suc k) [0..<n] = post" unfolding assms using k by simp
  moreover have "drop (Suc k) [0..<n] = [Suc k..<n]" by (simp add: drop_upt)
  ultimately have "post = [Suc k..<n]" by simp
  then show "set post = {k<..<n}" by auto
qed

lemma closest_loop_range:
  assumes "0 < n" and "n \<le> length ys" and "\<forall>i < n. l2_dist img (xs ! i) = Inr (f i)"
  shows "\<exists>k < n. closest_loop img xs ys [0..<n] None 0 = Inr (ys ! k) \<and>
     (\<forall>j < n. f k \<le> f j) \<and> (\<forall>j < k. f k < f j)"
proof -
  have "\<forall>i \<in> set [0..<n]. i < length ys" using assms(2) by simp
  moreover have "\<forall>i \<in> set [0..<n]. l2_dist img (xs ! i) = Inr (f i)" using assms(3) by simp
  ultimately obtain r where r: "closest_loop img xs ys [0..<n] None 0 = Inr r"
    and alt: "(\<forall>i \<in> set [0..<n]. \<not> below (f i) None) \<and> r = 0 \<or>
      (\<exists>pre k post. [0..<n] = pre @ k # post \<and> r = ys ! k \<and> below (f k) None \<and>
         (\<forall>j \<in> set pre. f k < f j) \<and> (\<forall>j \<in> set post. f k \<le> f j))"
    using closest_loop_first_min [of "[0..<n]" ys img xs f None 0] by blast
  have "\<not> (\<forall>i \<in> set [0..<n]. \<not> below (f i) None)"
    using assms(1) by (auto simp: below_simps)
  with alt obtain pre k post where s: "[0..<n] = pre @ k # post" and rk: "r = ys ! k"
    and before: "\<forall>j \<in> set pre. f k < f j"
    and after: "\<forall>j \<in> set post. f k \<le> f j"
    by blast
  note at = upt_split_at [OF s]
  have lt: "\<forall>j < k. f k < f j"
    using before at(3) by auto
  have "f k \<le> f j" if "j < n" for j
  proof -
    consider "j < k" | "j = k" | "k < j" by linarith
    then show ?thesis
    proof cases
      case 1 then show ?thesis using lt by (simp add: less_imp_le)
    next
      case 2 then show ?thesis by simp
    next
      case 3 then show ?thesis using after at(4) that by auto
    qed
  qed
  then show ?thesis using r rk at(2) lt by blast
qed

text \<open>At a grid point every distance is the sum of squared differences.\<close>

lemma grid_point_distances:
  assumes "is_decoder (decoder s)" and "list_all is_image (x_data s)"
  shows "\<exists>out img. predict (decoder s) [[x, y]] = [out] \<and> length out = 28 * 28 \<and>
     reshape 28 28 (predict (decoder s) [[x, y]]) = Inr img \<and>
     (\<forall>i < NUM_SHAPES s. l2_dist img (x_data s ! i) =
        Inr (sum_squared_differences out (x_data s ! i)))"
proof -
  from predict_decoder_row [OF assms(1)]
  obtain out where p: "predict (decoder s) [[x, y]] = [out]" and l: "length out = 28 * 28"
    by blast
  from reshape_row [OF l] obtain img where r: "reshape 28 28 [out] = Inr img" by blast
  have "l2_dist img (x_data s ! i) = Inr (sum_squared_differences out (x_data s ! i))"
    if "i < NUM_SHAPES s" for i
  proof -
    from that assms(2) have "is_image (x_data s ! i)"
      by (simp add: list_all_length NUM_SHAPES_def)
    then show ?thesis by (rule l2_dist_reshaped [OF l r])
  qed
  with p l r show ?thesis by auto
qed

text \<open>
  Claim C2. For every grid point \<open>(x, y)\<close> the sampler decodes the point to a row \<open>out\<close>
  of 784 values and emits the label of a sample \<open>k\<close> whose image is at minimal distance
  from it, the distance being the sum over the 28 x 28 pixels of the squared differences;
  every sample before \<open>k\<close> is strictly farther, so among equally close samples the one
  with the lowest index gives the label. (The dataset has at least one sample, one label
  per sample, and images of 28 x 28 pixels.)
\<close>

theorem grid_point_label_is_first_nearest:
  assumes "is_decoder (decoder s)" and "0 < NUM_SHAPES s" and "length (y_data s) = NUM_SHAPES s"
    and "list_all is_image (x_data s)"
  shows "\<exists>out k. predict (decoder s) [[x, y]] = [out] \<and> k < NUM_SHAPES s \<and>
     grid_point s x y = Inr (x, y, y_data s ! k) \<and>
     (\<forall>j < NUM_SHAPES s. sum_squared_differences out (x_data s ! k) \<le>
                           sum_squared_differences out (x_data s ! j)) \<and>
     (\<forall>j < k. sum_squared_differences out (x_data s ! k) <
                sum_squared_differences out (x_data s ! j))"
proof -
  from grid_point_distances [OF assms(1,4), of x y]
  obtain out img where p: "predict (decoder s) [[x, y]] = [out]"
    and img: "reshape 28 28 (predict (decoder s) [[x, y]]) = Inr img"
    and d: "\<forall>i < NUM_SHAPES s. l2_dist img (x_data s ! i) =
        Inr (sum_squared_differences out (x_data s ! i))"
    by blast
  from closest_loop_range [of "NUM_SHAPES s" "y_data s" img "x_data s"
      "\<lambda>i. sum_squared_differences out (x_data s ! i)"] assms(2,3) d
  obtain k where k: "k < NUM_SHAPES s"
    and r: "closest_loop img (x_data s) (y_data s) [0..<NUM_SHAPES s] None 0 = Inr (y_data s ! k)"
    and least: "\<forall>j < NUM_SHAPES s. sum_squared_differences out (x_data s ! k) \<le>
                           sum_squared_differences out (x_data s ! j)"
    and first: "\<forall>j < k. sum_squared_differences out (x_data s ! k) <
                sum_squared_differences out (x_data s ! j)"
    by auto
  have "grid_point s x y = Inr (x, y, y_data s ! k)"
    using img r by (simp add: grid_point_def)
  with p k least first show ?thesis by blast
qed

lemma grid_point_ok:
  assumes "is_decoder (decoder s)" and "NUM_SHAPES s \<le> length (y_data s)"
    and "list_all is_image (x_data s)"
  shows "\<exists>label. grid_point s x y = Inr (x, y, label)"
proof -
  from grid_point_distances [OF assms(1,3), of x y]
  obtain out img where img: "reshape 28 28 (predict (decoder s) [[x, y]]) = Inr img"
    and d: "\<forall>i < NUM_SHAPES s. l2_dist img (x_data s ! i) =
        Inr (sum_squared_differences out (x_data s ! i))"
    by blast
  have "\<forall>i \<in> set [0..<NUM_SHAPES s]. i < length (y_data s)" using assms(2) by simp
  moreover have "\<forall>i \<in> set [0..<NUM_SHAPES s]. l2_dist img (x_data s ! i) =
        Inr (sum_squared_differences out (x_data s ! i))" using d by simp
  ultimately obtain r where "closest_loop img (x_data s) (y_data s) [0..<NUM_SHAPES s] None 0 = Inr r"
    using closest_loop_first_min [of "[0..<NUM_SHAPES s]" "y_data s" img "x_data s"
        "\<lambda>i. sum_squared_differences out (x_data s ! i)" None 0] by blast
  then show ?thesis using img by (simp add: grid_point_def)
qed

lemma y_loop_ok:
  assumes "is_decoder (decoder s)" and "NUM_SHAPES s \<le> length (y_data s)"
    and "list_all is_image (x_data s)"
  shows "\<exists>ps. y_loop s x ys encoded = Inr (encoded @ ps) \<and>
     map (\<lambda>(x, y, label). (x, y)) ps = map (Pair x) ys \<and>
     map Inr ps = map (grid_point s x) ys"
proof (induction ys arbitrary: encoded)
  case Nil
  then show ?case by simp
next
  case (Cons y ys)
  from grid_point_ok [OF assms] obtain label where g: "grid_point s x y = Inr (x, y, label)"
    by blast
  from Cons.IH [of "encoded @ [(x, y, label)]"]
  obtain ps where r: "y_loop s x ys (encoded @ [(x, y, label)]) = Inr ((encoded @ [(x, y, label)]) @ ps)"
    and c: "map (\<lambda>(x, y, label). (x, y)) ps = map (Pair x) ys"
    and l: "map Inr ps = map (grid_point s x) ys"
    by blast
  have "y_loop s x (y # ys) encoded = Inr (encoded @ ((x, y, label) # ps))"
    using g r by simp
  moreover have "map (\<lambda>(x, y, label). (x, y)) ((x, y, label) # ps) = map (Pair x) (y # ys)"
    using c by simp
  moreover have "map Inr ((x, y, label) # ps) = map (grid_point s x) (y # ys)"
    using l g by simp
  ultimately show ?case by blast
qed

lemma x_loop_ok:
  assumes "is_decoder (decoder s)" and "NUM_SHAPES s \<le> length (y_data s)"
    and "list_all is_image (x_data s)"
  shows "\<exists>ps. x_loop s xs ys encoded = Inr (encoded @ ps) \<and>
     map (\<lambda>(x, y, label). (x, y)) ps = List.product xs ys \<and>
     map Inr ps = map (\<lambda>(x, y). grid_point s x y) (List.product xs ys)"
proof (induction xs arbitrary: encoded)
  case Nil
  then show ?case by simp
next
  case (Cons x xs)
  from y_loop_ok [OF assms, of x ys encoded]
  obtain ps where r: "y_loop s x ys encoded = Inr (encoded @ ps)"
    and c: "map (\<lambda>(x, y, label). (x, y)) ps = map (Pair x) ys"
    and l: "map Inr ps = map (grid_point s x) ys"
    by blast
  from Cons.IH [of "encoded @ ps"]
  obtain qs where r': "x_loop s xs ys (encoded @ ps) = Inr ((encoded @ ps) @ qs)"
    and c': "map (\<lambda>(x, y, label). (x, y)) qs = List.product xs ys"
    and l': "map Inr qs = map (\<lambda>(x, y). grid_point s x y) (List.product xs ys)"
    by blast
  have "x_loop s (x # xs) ys encoded = Inr (encoded @ (ps @ qs))"
    using r r' by simp
  moreover have "map (\<lambda>(x, y, label). (x, y)) (ps @ qs) = List.product (x # xs) ys"
    using c c' by simp
  moreover have "map Inr (ps @ qs) = map (\<lambda>(x, y). grid_point s x y) (List.product (x # xs) ys)"
    using l l' by (simp add: comp_def)
  ultimately show ?case by blast
qed

text \<open>
  Claim C4. For a dataset of 28 x 28 images with one label per sample, the sampler
  returns \<open>grid_size * grid_size\<close> triples, one per grid point, each the result of the loop
  body at its point, in row-major order with \<open>x\<close> as the outer and \<open>y\<close> as the inner loop
  variable: the triple at position \<open>a * grid_size + b\<close> has the \<open>a\<close>-th of the evenly
  spaced values from \<open>x_min\<close> to \<open>x_max\<close> and the \<open>b\<close>-th of those from \<open>y_min\<close> to
  \<open>y_max\<close>.
\<close>

theorem encoded_points_row_major:
  assumes "is_decoder (decoder s)" and "length (y_data s) = NUM_SHAPES s"
    and "list_all is_image (x_data s)"
  shows "\<exists>points. encoded_points s grid_size x_min x_max y_min y_max = Inr points \<and>
     length points = grid_size * grid_size \<and>
     map Inr points =
       map (\<lambda>(x, y). grid_point s x y)
         (List.product (linspace x_min x_max grid_size) (linspace y_min y_max grid_size)) \<and>
     (\<forall>a < grid_size. \<forall>b < grid_size.
        (\<exists>label. points ! (a * grid_size + b) =
           (x_min + real a * ((x_max - x_min) / real (grid_size - 1)),
            y_min + real b * ((y_max - y_min) / real (grid_size - 1)), label)))"
proof -
  let ?xs = "linspace x_min x_max grid_size" and ?ys = "linspace y_min y_max grid_size"
  have le: "NUM_SHAPES s \<le> length (y_data s)" using assms(2) by simp
  from x_loop_ok [OF assms(1) le assms(3), of ?xs ?ys "[]"]
  obtain ps where r: "encoded_points s grid_size x_min x_max y_min y_max = Inr ps"
    and c: "map (\<lambda>(x, y, label). (x, y)) ps = List.product ?xs ?ys"
    and l: "map Inr ps = map (\<lambda>(x, y). grid_point s x y) (List.product ?xs ?ys)"
    by (auto simp: encoded_points_def)
  have len: "length ps = grid_size * grid_size"
    using arg_cong [OF c, of length] by (simp add: length_linspace)
  have at: "\<exists>label. ps ! (a * grid_size + b) =
      (x_min + real a * ((x_max - x_min) / real (grid_size - 1)),
       y_min + real b * ((y_max - y_min) / real (grid_size - 1)), label)"
    if "a < grid_size" "b < grid_size" for a b
  proof -
    have "a * grid_size + b < grid_size * grid_size"
    proof -
      have "a * grid_size + b < a * grid_size + grid_size" using that(2) by simp
      also have "\<dots> = Suc a * grid_size" by simp
      also have "\<dots> \<le> grid_size * grid_size" using that(1) by (metis Suc_leI mult_le_mono1)
      finally show ?thesis .
    qed
    then have n: "a * grid_size + b < length ps" "a * grid_size + b < length ?xs * length ?ys"
      using len by (simp_all add: length_linspace)
    have "(\<lambda>(x, y, label). (x, y)) (ps ! (a * grid_size + b)) = List.product ?xs ?ys ! (a * grid_size + b)"
      using arg_cong [OF c, of "\<lambda>l. l ! (a * grid_size + b)"] n(1) by simp
    also have "\<dots> = (?xs ! a, ?ys ! b)"
      using product_nth [OF n(2)] that by (simp add: length_linspace)
    also have "\<dots> = (x_min + real a * ((x_max - x_min) / real (grid_size - 1)),
       y_min + real b * ((y_max - y_min) / real (grid_size - 1)))"
      using that by (simp add: linspace_nth)
    finally show ?thesis by (cases "ps ! (a * grid_size + b)") auto
  qed
  show ?thesis using r len l at by blast
qed

lemma grid_point_cong:
  "decoder s = decoder s' \<Longrightarrow> x_data s = x_data s' \<Longrightarrow> y_data s = y_data s' \<Longrightarrow>
   grid_point s x y = grid_point s' x y"
  by (simp add: grid_point_def NUM_SHAPES_def split: sum.splits)

lemma y_loop_cong:
  "decoder s = decoder s' \<Longrightarrow> x_data s = x_data s' \<Longrightarrow> y_data s = y_data s' \<Longrightarrow>
   y_loop s x ys encoded = y_loop s' x ys encoded"
  by (induction ys arbitrary: encoded) (simp_all add: grid_point_cong [of s s'] split: sum.splits)

lemma x_loop_cong:
  "decoder s = decoder s' \<Longrightarrow> x_data s = x_data s' \<Longrightarrow> y_data s = y_data s' \<Longrightarrow>
   x_loop s xs ys encoded = x_loop s' xs ys encoded"
  by (induction xs arbitrary: encoded) (simp_all add: y_loop_cong [of s s'] split: sum.splits)

text \<open>
  Claim C7. The output of the sampler is determined by the decoder, the reference samples
  and the grid: two runs from states that agree on the decoder and the dataset return the
  same sequence of triples for the same grid, whatever else differs between the states
  (latent table, optimizer, loss history, printed lines).
\<close>

theorem encoded_points_deterministic:
  assumes "decoder s = decoder s'" and "x_data s = x_data s'" and "y_data s = y_data s'"
  shows "encoded_points s grid_size x_min x_max y_min y_max =
         encoded_points s' grid_size x_min x_max y_min y_max"
  unfolding encoded_points_def by (rule x_loop_cong [OF assms])

theorem encoded_points_deterministic_witness:
  "encoded_points two_samples 20 (- 3) 3 (- 3) 3 =
   encoded_points (two_samples\<lparr>latent_codes := [[1, 2], [3, 4]], loss_history := [1 / 2]\<rparr>)
     20 (- 3) 3 (- 3) 3"
  using encoded_points_deterministic
    [of two_samples "two_samples\<lparr>latent_codes := [[1, 2], [3, 4]], loss_history := [1 / 2]\<rparr>"]
  by simp

lemma is_image_examples: "is_image blank_image" "is_image grey_image"
  by (simp_all add: is_image_def blank_image_def grey_image_def list_all_iff)

lemma two_shades_data:
  "x_data two_shades = [blank_image, grey_image]"
  "y_data two_shades = [3, 7]"
  "decoder two_shades = create_decoder (\<lambda>l i j. 0)"
  "NUM_SHAPES two_shades = 2"
  by (simp_all add: two_shades_def initial_globals_def Let_def NUM_SHAPES_def)

text \<open>A decoder whose kernels and biases are all zero returns 1/2 in every pixel.\<close>

lemma dot_zero_rows:
  "\<forall>row \<in> set W. row = replicate n 0 \<Longrightarrow>
   foldl (\<lambda>acc (xi, row). map2 (+) acc (map ((*) xi) row)) (replicate n a) (zip x W) = replicate n a"
  for W :: mat
proof (induction W arbitrary: x)
  case Nil
  then show ?case by simp
next
  case (Cons row W)
  then show ?case by (cases x) (simp_all add: zip_replicate)
qed

lemma dense_call_zero_layer:
  "dense_call (Dense_layer (\<lambda>i j. 0) n u act) h = replicate u (activate act 0)"
proof -
  have k: "kernel (Dense_layer (\<lambda>i j. 0) n u act) = replicate n (replicate u 0)"
    by (simp add: Dense_layer_def map_replicate_const)
  have "dot h (replicate n (replicate u 0)) u = replicate u 0"
    unfolding dot_def by (rule dot_zero_rows) simp
  then show ?thesis
    by (simp add: dense_call_def k units_Dense_layer activation_Dense_layer zip_replicate)
       (simp add: Dense_layer_def zip_replicate)
qed

lemma predict_zero_decoder:
  "predict (create_decoder (\<lambda>l i j. 0)) [z] = [replicate 784 (1 / 2)]"
  by (simp add: predict_def call_model_def create_decoder_def dense_call_zero_layer)

lemma sum_squared_differences_flat:
  "sum_squared_differences (replicate 784 a) (replicate 28 (replicate 28 b)) = 784 * (a - b)\<^sup>2"
proof -
  have inner: "(\<Sum>c\<leftarrow>[0..<28]. (replicate 784 a ! (r * 28 + c) -
                    replicate 28 (replicate 28 b) ! r ! c)\<^sup>2) = 28 * (a - b)\<^sup>2"
    if "r \<in> set [0..<28]" for r
  proof -
    have "map (\<lambda>c. (replicate 784 a ! (r * 28 + c) - replicate 28 (replicate 28 b) ! r ! c)\<^sup>2) [0..<28] =
          map (\<lambda>c. (a - b)\<^sup>2) [0..<28]"
      by (rule map_cong [OF refl]) (use that in simp)
    then show ?thesis by (simp add: map_replicate_const sum_list_replicate)
  qed
  have "map (\<lambda>r. \<Sum>c\<leftarrow>[0..<28]. (replicate 784 a ! (r * 28 + c) -
                    replicate 28 (replicate 28 b) ! r ! c)\<^sup>2) [0..<28] =
        map (\<lambda>r. 28 * (a - b)\<^sup>2) [0..<28]"
    by (rule map_cong [OF refl]) (rule inner)
  then show ?thesis
    unfolding sum_squared_differences_def by (simp add: map_replicate_const sum_list_replicate)
qed

theorem grid_point_label_is_first_nearest_witness:
  "grid_point two_samples 0 0 = Inr (0, 0, 0) \<and> grid_point two_shades 0 0 = Inr (0, 0, 7)"
proof
  have h: "0 < NUM_SHAPES two_samples" "length (y_data two_samples) = NUM_SHAPES two_samples"
    "list_all is_image (x_data two_samples)"
    by (simp_all add: two_samples_fields two_samples_data is_image_examples)
  from grid_point_label_is_first_nearest [OF two_samples_ok(2) h, of 0 0]
  obtain out k where k: "k < NUM_SHAPES two_samples"
    and g: "grid_point two_samples 0 0 = Inr (0, 0, y_data two_samples ! k)"
    and first: "\<forall>j < k. sum_squared_differences out (x_data two_samples ! k) <
                          sum_squared_differences out (x_data two_samples ! j)"
    by blast
  have "k = 0"
  proof (rule ccontr)
    assume "k \<noteq> 0"
    with k have "k = 1" by (simp add: two_samples_fields)
    with first [rule_format, of 0] show False by (simp add: two_samples_data)
  qed
  with g show "grid_point two_samples 0 0 = Inr (0, 0, 0)" by (simp add: two_samples_data)
next
  have d: "is_decoder (decoder two_shades)"
    by (simp add: two_shades_data is_decoder_create_decoder)
  have h: "0 < NUM_SHAPES two_shades" "length (y_data two_shades) = NUM_SHAPES two_shades"
    "list_all is_image (x_data two_shades)"
    by (simp_all add: two_shades_data is_image_examples)
  from grid_point_label_is_first_nearest [OF d h, of 0 0]
  obtain out k where p: "predict (decoder two_shades) [[0, 0]] = [out]"
    and k: "k < NUM_SHAPES two_shades"
    and g: "grid_point two_shades 0 0 = Inr (0, 0, y_data two_shades ! k)"
    and least: "\<forall>j < NUM_SHAPES two_shades. sum_squared_differences out (x_data two_shades ! k) \<le>
                          sum_squared_differences out (x_data two_shades ! j)"
    by blast
  from p have out: "out = replicate 784 (1 / 2)"
    by (simp add: two_shades_data predict_zero_decoder)
  have far: "sum_squared_differences out blank_image = 196"
    and near: "sum_squared_differences out grey_image = 0"
    unfolding out blank_image_def grey_image_def
    by (simp_all add: sum_squared_differences_flat power2_eq_square)
  have "k = 1"
  proof (rule ccontr)
    assume "k \<noteq> 1"
    with k have "k = 0" by (simp add: two_shades_data)
    with least [rule_format, of 1] far near show False by (simp add: two_shades_data)
  qed
  with g show "grid_point two_shades 0 0 = Inr (0, 0, 7)" by (simp add: two_shades_data)
qed

lemma linspace_2: "linspace (- 1) 1 2 = [- 1, 1]"
  by (simp add: linspace_def)

theorem encoded_points_row_major_witness:
  "\<exists>points. encoded_points two_samples 2 (- 1) 1 (- 1) 1 = Inr points \<and> length points = 4 \<and>
     map (\<lambda>(x, y, label). (x, y)) points = [(- 1, - 1), (- 1, 1), (1, - 1), (1, 1)]"
proof -
  have h: "length (y_data two_samples) = NUM_SHAPES two_samples"
    "list_all is_image (x_data two_samples)"
    by (simp_all add: two_samples_fields two_samples_data is_image_examples)
  from encoded_points_row_major [OF two_samples_ok(2) h, of 2 "- 1" 1 "- 1" 1]
  obtain points where r: "encoded_points two_samples 2 (- 1) 1 (- 1) 1 = Inr points"
    and len: "length points = 2 * 2"
    and at: "\<forall>a < 2. \<forall>b < 2. \<exists>label. points ! (a * 2 + b) =
           (- 1 + real a * ((1 - (- 1)) / real (2 - 1)), - 1 + real b * ((1 - (- 1)) / real (2 - 1)), label)"
    by blast
  from at [rule_format, of 0 0] at [rule_format, of 0 1] at [rule_format, of 1 0]
    at [rule_format, of 1 1]
  obtain l0 l1 l2 l3 where p: "points ! 0 = (- 1, - 1, l0)" "points ! 1 = (- 1, 1, l1)"
    "points ! 2 = (1, - 1, l2)" "points ! 3 = (1, 1, l3)"
    by (auto simp: numeral_3_eq_3)
  from len obtain p0 p1 p2 p3 where "points = [p0, p1, p2, p3]"
    by (auto simp: length_Suc_conv numeral_eq_Suc)
  with p have "points = [(- 1, - 1, l0), (- 1, 1, l1), (1, - 1, l2), (1, 1, l3)]"
    by (simp add: numeral_eq_Suc)
  with r show ?thesis by simp
qed

end
